theory Spec2Isabelle
  imports Main "HOL-Library.Sublist" "HOL-Library.AList"
begin

section \<open>Control API: the restart handler of \<open>src/routes/public.ts\<close>\<close>

text \<open>
  \<open>POST /api/restart\<close> reads the query parameter \<open>token\<close> (a string, or \<open>null\<close> when
  the parameter is absent) and compares it with the environment binding
  \<open>MOLTBOT_GATEWAY_TOKEN\<close> (a string, or \<open>undefined\<close>). Both are modelled as
  \<open>string option\<close>. The functions \<open>findExistingMoltbotProcess\<close> and
  \<open>ensureMoltbotGateway\<close> are imported from the gateway module, and \<open>kill\<close> is a method
  of the sandbox process handle; the handler takes them as parameters over an arbitrary
  sandbox state \<open>'sb\<close>. Every call the handler makes to \<open>kill\<close> or to
  \<open>ensureMoltbotGateway\<close> is recorded in an effect list.
\<close>

datatype effect = Kill nat | Boot

datatype body =
    ErrorBody string
  | RestartBody bool string "nat option"

type_synonym response = "nat \<times> body"

text \<open>JavaScript's \<open>!token\<close>: true for \<open>null\<close> and for the empty string.\<close>

definition falsy_str :: "string option \<Rightarrow> bool" where
  "falsy_str t = (case t of None \<Rightarrow> True | Some s \<Rightarrow> s = [])"

definition restart ::
  "('sb \<Rightarrow> string + nat option) \<Rightarrow> (nat \<Rightarrow> 'sb \<Rightarrow> 'sb) \<Rightarrow> ('sb \<Rightarrow> 'sb) \<Rightarrow>
   string option \<Rightarrow> string option \<Rightarrow> 'sb \<Rightarrow> response \<times> effect list \<times> 'sb" where
  "restart findExistingMoltbotProcess kill ensureMoltbotGateway gateway_token token sb =
     (if falsy_str token \<or> token \<noteq> gateway_token
      then ((401, ErrorBody ''Invalid or missing token''), [], sb)
      else
        (case findExistingMoltbotProcess sb of
           Inl msg \<Rightarrow> ((500, ErrorBody msg), [], sb)
         | Inr None \<Rightarrow>
             ((200, RestartBody True ''No existing process found, starting new instance...'' None),
              [Boot], ensureMoltbotGateway sb)
         | Inr (Some p) \<Rightarrow>
             ((200, RestartBody True ''Gateway process killed, new instance starting...'' (Some p)),
              [Kill p, Boot], ensureMoltbotGateway (kill p sb))))"


section \<open>Backup Sync: the restore decision of \<open>start-moltbot.sh\<close>\<close>

text \<open>
  The two sync markers are the contents of \<open>$BACKUP_DIR/.last-sync\<close> (remote) and
  \<open>$CONFIG_DIR/.last-sync\<close> (local); \<open>None\<close> is a missing file. The script converts a
  marker with \<open>date -d "$T" +%s 2>/dev/null || echo "0"\<close>: the external \<open>date\<close> program
  is the parameter \<open>date\<close>, and a marker it rejects counts as epoch \<open>0\<close>.
\<close>

definition epoch :: "(string \<Rightarrow> int option) \<Rightarrow> string \<Rightarrow> int" where
  "epoch date t = (case date t of None \<Rightarrow> 0 | Some s \<Rightarrow> s)"

definition should_restore_from_r2 ::
  "(string \<Rightarrow> int option) \<Rightarrow> string option \<Rightarrow> string option \<Rightarrow> bool" where
  "should_restore_from_r2 date r2_sync local_sync =
     (case r2_sync of
        None \<Rightarrow> False
      | Some r2_time \<Rightarrow>
          (case local_sync of
             None \<Rightarrow> True
           | Some local_time \<Rightarrow> epoch date local_time < epoch date r2_time))"


section \<open>Config Hydrator: the embedded node script of \<open>start-moltbot.sh\<close>\<close>

subsection \<open>JavaScript values of a parsed JSON document\<close>

text \<open>
  The script holds the persisted configuration as the value \<open>JSON.parse\<close> returned and
  mutates it in place. A value is \<open>undefined\<close>, \<open>null\<close>, a boolean, a number, a string,
  an array or an object. An object is its list of own properties in insertion order. An
  array carries its elements and, separately, the named (non-index) properties that an
  assignment such as \<open>a.port = 18789\<close> creates on it. Numbers are integers here: the
  script writes integer constants only and inspects a persisted number only for
  truthiness.
\<close>

datatype json =
    JUndef
  | JNull
  | JBool bool
  | JNum int
  | JStr string
  | JArr "json list" "(string \<times> json) list"
  | JObj "(string \<times> json) list"

datatype js_error = TypeError

fun truthy :: "json \<Rightarrow> bool" where
  "truthy JUndef = False"
| "truthy JNull = False"
| "truthy (JBool b) = b"
| "truthy (JNum n) = (n \<noteq> 0)"
| "truthy (JStr s) = (s \<noteq> [])"
| "truthy (JArr es xs) = True"
| "truthy (JObj kvs) = True"

fun nullish :: "json \<Rightarrow> bool" where
  "nullish JUndef = True"
| "nullish JNull = True"
| "nullish v = False"

text \<open>
  \<open>own_prop v k\<close> is the value of \<open>v.k\<close> for a \<open>v\<close> that is neither \<open>null\<close> nor
  \<open>undefined\<close>, for the property names the script uses: none of them is an array index,
  \<open>length\<close>, or a name inherited from a prototype, so a primitive has none of them.
\<close>

fun own_prop :: "json \<Rightarrow> string \<Rightarrow> json" where
  "own_prop (JObj kvs) k = (case map_of kvs k of None \<Rightarrow> JUndef | Some v \<Rightarrow> v)"
| "own_prop (JArr es xs) k = (case map_of xs k of None \<Rightarrow> JUndef | Some v \<Rightarrow> v)"
| "own_prop v k = JUndef"

text \<open>
  \<open>put_prop v k x\<close> is \<open>v\<close> after \<open>v.k = x\<close>. The script runs in sloppy mode (a
  CommonJS script without \<open>'use strict'\<close>), where an assignment to a property of a
  primitive is silently dropped.
\<close>

fun put_prop :: "json \<Rightarrow> string \<Rightarrow> json \<Rightarrow> json" where
  "put_prop (JObj kvs) k x = JObj (AList.update k x kvs)"
| "put_prop (JArr es xs) k x = JArr es (AList.update k x xs)"
| "put_prop v k x = v"

fun del_prop :: "json \<Rightarrow> string \<Rightarrow> json" where
  "del_prop (JObj kvs) k = JObj (AList.delete k kvs)"
| "del_prop (JArr es xs) k = JArr es (AList.delete k xs)"
| "del_prop v k = v"

text \<open>
  \<open>peek p c\<close> follows the property path \<open>p\<close> from \<open>c\<close> the way an optional chain
  \<open>c?.k1?.k2\<close> does: \<open>undefined\<close> as soon as a step has nothing to read from.
\<close>

fun peek :: "string list \<Rightarrow> json \<Rightarrow> json" where
  "peek [] c = c"
| "peek (k # ks) c = (if nullish c then JUndef else peek ks (own_prop c k))"

text \<open>
  \<open>js_get p c\<close> is the plain member chain \<open>c.k1.k2\<close>: reading a property of \<open>null\<close> or
  \<open>undefined\<close> throws.
\<close>

fun js_get :: "string list \<Rightarrow> json \<Rightarrow> js_error + json" where
  "js_get [] c = Inr c"
| "js_get (k # ks) c = (if nullish c then Inl TypeError else js_get ks (own_prop c k))"

text \<open>
  \<open>assign p x c\<close> is the document \<open>c\<close> after the statement \<open>c.k1.k2.kn = x\<close>:
  the new \<open>c.k1\<close> is the old one after \<open>k2.kn = x\<close> inside it.
\<close>

fun assign :: "string list \<Rightarrow> json \<Rightarrow> json \<Rightarrow> js_error + json" where
  "assign [] x c = Inr x"
| "assign (k # ks) x c =
     (if nullish c then Inl TypeError
      else (case assign ks x (own_prop c k) of
              Inl e \<Rightarrow> Inl e
            | Inr v \<Rightarrow> Inr (put_prop c k v)))"

text \<open>\<open>js_delete p c\<close> is \<open>c\<close> after \<open>delete c.k1.k2.kn\<close>.\<close>

fun js_delete :: "string list \<Rightarrow> json \<Rightarrow> js_error + json" where
  "js_delete [] c = Inr c"
| "js_delete [k] c = (if nullish c then Inl TypeError else Inr (del_prop c k))"
| "js_delete (k # ks) c =
     (if nullish c then Inl TypeError
      else (case js_delete ks (own_prop c k) of
              Inl e \<Rightarrow> Inl e
            | Inr v \<Rightarrow> Inr (put_prop c k v)))"

text \<open>\<open>ensure p c\<close> is \<open>c\<close> after \<open>c.k1.kn = c.k1.kn || {}\<close>.\<close>

definition ensure :: "string list \<Rightarrow> json \<Rightarrow> js_error + json" where
  "ensure p c =
     (case js_get p c of
        Inl e \<Rightarrow> Inl e
      | Inr v \<Rightarrow> assign p (if truthy v then v else JObj []) c)"

text \<open>A statement maps the document to the mutated document, or throws.\<close>

type_synonym stmt = "json \<Rightarrow> js_error + json"

fun run :: "stmt list \<Rightarrow> json \<Rightarrow> js_error + json" where
  "run [] c = Inr c"
| "run (s # ss) c = (case s c of Inl e \<Rightarrow> Inl e | Inr c' \<Rightarrow> run ss c')"

definition when_stmt :: "bool \<Rightarrow> stmt list \<Rightarrow> stmt list" where
  "when_stmt b ss = (if b then ss else [])"

text \<open>
  \<open>written c\<close> is the document that \<open>JSON.parse\<close> reads back from
  \<open>JSON.stringify(c, null, 2)\<close>: a property whose value is \<open>undefined\<close> is omitted, an
  \<open>undefined\<close> array element becomes \<open>null\<close>, and the named properties of an array are
  not serialised.
\<close>

fun written :: "json \<Rightarrow> json" where
  "written (JObj kvs) =
     JObj (map (\<lambda>(k, v). (k, written v)) (filter (\<lambda>(k, v). v \<noteq> JUndef) kvs))"
| "written (JArr es xs) = JArr (map (\<lambda>e. if e = JUndef then JNull else written e) es) []"
| "written v = v"


subsection \<open>Environment\<close>

text \<open>
  The variables of \<open>process.env\<close> the script reads; each is a string or \<open>undefined\<close>.
\<close>

record env =
  CLAWDBOT_GATEWAY_TOKEN :: "string option"
  CLAWDBOT_DEV_MODE :: "string option"
  TELEGRAM_BOT_TOKEN :: "string option"
  TELEGRAM_DM_POLICY :: "string option"
  DISCORD_BOT_TOKEN :: "string option"
  DISCORD_DM_POLICY :: "string option"
  SLACK_BOT_TOKEN :: "string option"
  SLACK_APP_TOKEN :: "string option"
  AI_GATEWAY_BASE_URL :: "string option"
  OPENAI_BASE_URL :: "string option"
  ANTHROPIC_BASE_URL :: "string option"
  USE_WORKERS_AI :: "string option"
  OPENAI_API_KEY :: "string option"
  AI_GATEWAY_API_KEY :: "string option"
  MISTRAL_API_KEY :: "string option"
  ANTHROPIC_API_KEY :: "string option"

definition env_val :: "string option \<Rightarrow> json" where
  "env_val v = (case v of None \<Rightarrow> JUndef | Some s \<Rightarrow> JStr s)"

definition is_set :: "string option \<Rightarrow> bool" where
  "is_set v = truthy (env_val v)"

text \<open>\<open>str_or v d\<close> is \<open>v || d\<close> for a string default \<open>d\<close>.\<close>

definition str_or :: "string option \<Rightarrow> string \<Rightarrow> string" where
  "str_or v d = (case v of None \<Rightarrow> d | Some s \<Rightarrow> if s = [] then d else s)"

text \<open>\<open>.replace(/\/+$/, '')\<close>: the string without its trailing slashes.\<close>

definition strip_trailing_slashes :: "string \<Rightarrow> string" where
  "strip_trailing_slashes s = rev (dropWhile (\<lambda>c. c = CHR ''/'') (rev s))"

definition str_includes :: "string \<Rightarrow> string \<Rightarrow> bool" where
  "str_includes s sub = sublist sub s"

definition baseUrl :: "env \<Rightarrow> string" where
  "baseUrl e =
     strip_trailing_slashes
       (str_or (AI_GATEWAY_BASE_URL e) (str_or (OPENAI_BASE_URL e) (str_or (ANTHROPIC_BASE_URL e) [])))"

definition isWorkersAI :: "env \<Rightarrow> bool" where
  "isWorkersAI e = (USE_WORKERS_AI e = Some ''true'' \<or> str_includes (baseUrl e) ''/ai/v1'')"

definition isGroq :: "env \<Rightarrow> bool" where
  "isGroq e = str_includes (baseUrl e) ''groq.com''"

definition isOpenAI :: "env \<Rightarrow> bool" where
  "isOpenAI e = (str_includes (baseUrl e) ''/openai'' \<or> isGroq e \<or> isWorkersAI e)"


subsection \<open>The statements of the script\<close>

definition model_entry :: "string \<Rightarrow> string \<Rightarrow> int \<Rightarrow> json" where
  "model_entry i n w = JObj [(''id'', JStr i), (''name'', JStr n), (''contextWindow'', JNum w)]"

definition alias_entry :: "string \<Rightarrow> json" where
  "alias_entry a = JObj [(''alias'', JStr a)]"

text \<open>
  The clean-up of a broken \<open>anthropic\<close> provider. \<open>some_unnamed\<close> is
  \<open>models.some(m => !m.name)\<close> on the elements of an array: it stops at the first
  element without a truthy \<open>name\<close>, and reading \<open>name\<close> from a \<open>null\<close> element throws.
  On a truthy value that is not an array the call of \<open>some\<close> throws.
\<close>

fun some_unnamed :: "json list \<Rightarrow> js_error + bool" where
  "some_unnamed [] = Inr False"
| "some_unnamed (m # ms) =
     (if nullish m then Inl TypeError
      else if \<not> truthy (own_prop m ''name'') then Inr True
      else some_unnamed ms)"

fun hasInvalidModels :: "json \<Rightarrow> js_error + bool" where
  "hasInvalidModels (JArr es xs) = some_unnamed es"
| "hasInvalidModels v = Inl TypeError"

definition cleanup_anthropic :: stmt where
  "cleanup_anthropic c =
     (if nullish c then Inl TypeError
      else if truthy (peek [''models'', ''providers'', ''anthropic'', ''models''] c)
      then (case hasInvalidModels (peek [''models'', ''providers'', ''anthropic'', ''models''] c) of
              Inl e \<Rightarrow> Inl e
            | Inr b \<Rightarrow>
                if b then js_delete [''models'', ''providers'', ''anthropic''] c else Inr c)
      else Inr c)"

definition ensure_nested_objects :: "stmt list" where
  "ensure_nested_objects =
     [ensure [''agents''],
      ensure [''agents'', ''defaults''],
      ensure [''agents'', ''defaults'', ''model''],
      ensure [''gateway''],
      ensure [''channels'']]"

definition gateway_configuration :: "env \<Rightarrow> stmt list" where
  "gateway_configuration e =
     [assign [''gateway'', ''port''] (JNum 18789),
      assign [''gateway'', ''mode''] (JStr ''local''),
      assign [''gateway'', ''trustedProxies''] (JArr [JStr ''10.1.0.0''] []),
      ensure [''gateway'', ''http''],
      ensure [''gateway'', ''http'', ''endpoints''],
      assign [''gateway'', ''http'', ''endpoints'', ''chatCompletions'']
        (JObj [(''enabled'', JBool True)])]
     @ when_stmt (is_set (CLAWDBOT_GATEWAY_TOKEN e))
        [ensure [''gateway'', ''auth''],
         assign [''gateway'', ''auth'', ''token''] (env_val (CLAWDBOT_GATEWAY_TOKEN e))]
     @ when_stmt (CLAWDBOT_DEV_MODE e = Some ''true'')
        [ensure [''gateway'', ''controlUi''],
         assign [''gateway'', ''controlUi'', ''allowInsecureAuth''] (JBool True)]"

definition channel_configuration :: "env \<Rightarrow> stmt list" where
  "channel_configuration e =
     when_stmt (is_set (TELEGRAM_BOT_TOKEN e))
        [ensure [''channels'', ''telegram''],
         assign [''channels'', ''telegram'', ''botToken''] (env_val (TELEGRAM_BOT_TOKEN e)),
         assign [''channels'', ''telegram'', ''enabled''] (JBool True),
         ensure [''channels'', ''telegram'', ''dm''],
         assign [''channels'', ''telegram'', ''dmPolicy'']
           (JStr (str_or (TELEGRAM_DM_POLICY e) ''pairing''))]
     @ when_stmt (is_set (DISCORD_BOT_TOKEN e))
        [ensure [''channels'', ''discord''],
         assign [''channels'', ''discord'', ''token''] (env_val (DISCORD_BOT_TOKEN e)),
         assign [''channels'', ''discord'', ''enabled''] (JBool True),
         ensure [''channels'', ''discord'', ''dm''],
         assign [''channels'', ''discord'', ''dm'', ''policy'']
           (JStr (str_or (DISCORD_DM_POLICY e) ''pairing''))]
     @ when_stmt (is_set (SLACK_BOT_TOKEN e) \<and> is_set (SLACK_APP_TOKEN e))
        [ensure [''channels'', ''slack''],
         assign [''channels'', ''slack'', ''botToken''] (env_val (SLACK_BOT_TOKEN e)),
         assign [''channels'', ''slack'', ''appToken''] (env_val (SLACK_APP_TOKEN e)),
         assign [''channels'', ''slack'', ''enabled''] (JBool True)]"


text \<open>The five provider branches, in the order of the script's \<open>if\<close> chain.\<close>

definition workers_ai_provider :: "env \<Rightarrow> json" where
  "workers_ai_provider e =
     JObj [(''baseUrl'', JStr (baseUrl e)),
           (''api'', JStr ''openai-responses''),
           (''apiKey'', JStr (str_or (OPENAI_API_KEY e) ''workers-ai'')),
           (''models'', JArr [model_entry ''llama-3.1-8b-instruct'' ''Llama 3.1 8B'' 128000,
                             model_entry ''mistral-7b-instruct'' ''Mistral 7B'' 32000,
                             model_entry ''llama-3.2-3b-instruct'' ''Llama 3.2 3B'' 8192] [])]"

definition workers_ai_branch :: "env \<Rightarrow> stmt list" where
  "workers_ai_branch e =
     [ensure [''models''],
      ensure [''models'', ''providers''],
      assign [''models'', ''providers'', ''openai''] (workers_ai_provider e),
      ensure [''agents'', ''defaults'', ''models''],
      assign [''agents'', ''defaults'', ''models'', ''openai/llama-3.1-8b-instruct'']
        (alias_entry ''Llama 3.1 8B''),
      assign [''agents'', ''defaults'', ''models'', ''openai/mistral-7b-instruct'']
        (alias_entry ''Mistral 7B''),
      assign [''agents'', ''defaults'', ''models'', ''openai/llama-3.2-3b-instruct'']
        (alias_entry ''Llama 3.2 3B''),
      assign [''agents'', ''defaults'', ''model'', ''primary'']
        (JStr ''openai/llama-3.1-8b-instruct'')]"

text \<open>\<open>process.env.AI_GATEWAY_API_KEY || process.env.OPENAI_API_KEY\<close>\<close>

definition openai_apiKey :: "env \<Rightarrow> json" where
  "openai_apiKey e =
     (if is_set (AI_GATEWAY_API_KEY e) then env_val (AI_GATEWAY_API_KEY e)
      else env_val (OPENAI_API_KEY e))"

definition groq_provider :: "env \<Rightarrow> json" where
  "groq_provider e =
     JObj [(''baseUrl'', JStr (baseUrl e)),
           (''api'', JStr ''openai-responses''),
           (''apiKey'', openai_apiKey e),
           (''models'', JArr [model_entry ''llama-3.3-70b-versatile'' ''Llama 3.3 70B'' 128000,
                             model_entry ''llama-3.1-8b-instant'' ''Llama 3.1 8B'' 128000,
                             model_entry ''mixtral-8x7b-32768'' ''Mixtral 8x7B'' 32768] [])]"

definition mistral_provider :: "env \<Rightarrow> json" where
  "mistral_provider e =
     JObj [(''baseUrl'', JStr ''https://api.mistral.ai/v1''),
           (''api'', JStr ''openai-responses''),
           (''apiKey'', env_val (MISTRAL_API_KEY e)),
           (''models'', JArr [model_entry ''mistral-small-latest'' ''Mistral Small'' 32000,
                             model_entry ''mistral-large-latest'' ''Mistral Large'' 128000] [])]"

definition groq_branch :: "env \<Rightarrow> stmt list" where
  "groq_branch e =
     [assign [''models'', ''providers'', ''openai''] (groq_provider e)]
     @ when_stmt (is_set (MISTRAL_API_KEY e))
        [assign [''models'', ''providers'', ''mistral''] (mistral_provider e)]
     @ [ensure [''agents'', ''defaults'', ''models''],
        assign [''agents'', ''defaults'', ''models'', ''openai/llama-3.3-70b-versatile'']
          (alias_entry ''Llama 3.3 70B''),
        assign [''agents'', ''defaults'', ''models'', ''openai/llama-3.1-8b-instant'']
          (alias_entry ''Llama 3.1 8B''),
        assign [''agents'', ''defaults'', ''models'', ''openai/mixtral-8x7b-32768'']
          (alias_entry ''Mixtral 8x7B'')]
     @ when_stmt (is_set (MISTRAL_API_KEY e))
        [assign [''agents'', ''defaults'', ''models'', ''mistral/mistral-small-latest'']
           (alias_entry ''Mistral Small''),
         assign [''agents'', ''defaults'', ''models'', ''mistral/mistral-large-latest'']
           (alias_entry ''Mistral Large'')]
     @ [assign [''agents'', ''defaults'', ''model'', ''primary'']
          (JStr (if is_set (MISTRAL_API_KEY e) then ''mistral/mistral-small-latest''
                 else ''openai/llama-3.3-70b-versatile''))]"

definition generic_openai_provider :: "env \<Rightarrow> json" where
  "generic_openai_provider e =
     JObj [(''baseUrl'', JStr (baseUrl e)),
           (''api'', JStr ''openai-responses''),
           (''apiKey'', openai_apiKey e),
           (''models'', JArr [model_entry ''gpt-5.2'' ''GPT-5.2'' 200000,
                             model_entry ''gpt-5'' ''GPT-5'' 200000,
                             model_entry ''gpt-4.5-preview'' ''GPT-4.5 Preview'' 128000] [])]"

definition generic_openai_branch :: "env \<Rightarrow> stmt list" where
  "generic_openai_branch e =
     [assign [''models'', ''providers'', ''openai''] (generic_openai_provider e),
      ensure [''agents'', ''defaults'', ''models''],
      assign [''agents'', ''defaults'', ''models'', ''openai/gpt-5.2''] (alias_entry ''GPT-5.2''),
      assign [''agents'', ''defaults'', ''models'', ''openai/gpt-5''] (alias_entry ''GPT-5''),
      assign [''agents'', ''defaults'', ''models'', ''openai/gpt-4.5-preview'']
        (alias_entry ''GPT-4.5''),
      assign [''agents'', ''defaults'', ''model'', ''primary''] (JStr ''openai/gpt-5.2'')]"

definition openai_branch :: "env \<Rightarrow> stmt list" where
  "openai_branch e =
     [ensure [''models''],
      ensure [''models'', ''providers'']]
     @ (if isGroq e then groq_branch e else generic_openai_branch e)"

definition anthropic_baseurl_provider :: "env \<Rightarrow> json" where
  "anthropic_baseurl_provider e =
     JObj ([(''baseUrl'', JStr (baseUrl e)),
            (''api'', JStr ''anthropic-messages''),
            (''models'', JArr [model_entry ''claude-opus-4-5-20251101'' ''Claude Opus 4.5'' 200000,
                              model_entry ''claude-sonnet-4-5-20250929'' ''Claude Sonnet 4.5'' 200000,
                              model_entry ''claude-haiku-4-5-20251001'' ''Claude Haiku 4.5'' 200000] [])]
           @ (if is_set (ANTHROPIC_API_KEY e)
              then [(''apiKey'', env_val (ANTHROPIC_API_KEY e))] else []))"

definition anthropic_baseurl_branch :: "env \<Rightarrow> stmt list" where
  "anthropic_baseurl_branch e =
     [ensure [''models''],
      ensure [''models'', ''providers''],
      assign [''models'', ''providers'', ''anthropic''] (anthropic_baseurl_provider e),
      ensure [''agents'', ''defaults'', ''models''],
      assign [''agents'', ''defaults'', ''models'', ''anthropic/claude-opus-4-5-20251101'']
        (alias_entry ''Opus 4.5''),
      assign [''agents'', ''defaults'', ''models'', ''anthropic/claude-sonnet-4-5-20250929'']
        (alias_entry ''Sonnet 4.5''),
      assign [''agents'', ''defaults'', ''models'', ''anthropic/claude-haiku-4-5-20251001'']
        (alias_entry ''Haiku 4.5''),
      assign [''agents'', ''defaults'', ''model'', ''primary'']
        (JStr ''anthropic/claude-opus-4-5-20251101'')]"

definition anthropic_direct_provider :: "env \<Rightarrow> json" where
  "anthropic_direct_provider e =
     JObj [(''baseUrl'', JStr ''https://api.anthropic.com''),
           (''apiKey'', env_val (ANTHROPIC_API_KEY e)),
           (''api'', JStr ''anthropic-messages''),
           (''models'', JArr [model_entry ''claude-3-5-sonnet-latest'' ''Claude 3.5 Sonnet'' 200000,
                             model_entry ''claude-3-5-haiku-latest'' ''Claude 3.5 Haiku'' 200000,
                             model_entry ''claude-3-opus-latest'' ''Claude 3 Opus'' 200000] [])]"

definition anthropic_direct_branch :: "env \<Rightarrow> stmt list" where
  "anthropic_direct_branch e =
     [ensure [''models''],
      ensure [''models'', ''providers''],
      assign [''models'', ''providers'', ''anthropic''] (anthropic_direct_provider e),
      ensure [''agents'', ''defaults'', ''models''],
      assign [''agents'', ''defaults'', ''models'', ''anthropic/claude-3-5-sonnet-latest'']
        (alias_entry ''Sonnet 3.5''),
      assign [''agents'', ''defaults'', ''models'', ''anthropic/claude-3-5-haiku-latest'']
        (alias_entry ''Haiku 3.5''),
      assign [''agents'', ''defaults'', ''models'', ''anthropic/claude-3-opus-latest'']
        (alias_entry ''Opus 3''),
      assign [''agents'', ''defaults'', ''model'', ''primary'']
        (JStr ''anthropic/claude-3-5-sonnet-latest'')]"

definition default_branch :: "stmt list" where
  "default_branch =
     [assign [''agents'', ''defaults'', ''model'', ''primary''] (JStr ''anthropic/claude-opus-4-5'')]"

definition provider_configuration :: "env \<Rightarrow> stmt list" where
  "provider_configuration e =
     (if isWorkersAI e then workers_ai_branch e
      else if isOpenAI e then openai_branch e
      else if baseUrl e \<noteq> [] then anthropic_baseurl_branch e
      else if is_set (ANTHROPIC_API_KEY e) then anthropic_direct_branch e
      else default_branch)"

text \<open>
  The whole node script. The persisted file is \<open>None\<close> when reading or parsing it
  throws (the script then keeps \<open>config = {}\<close>), and \<open>Some c\<close> when \<open>JSON.parse\<close>
  returns \<open>c\<close>; \<open>initial_config\<close> is the value of \<open>config\<close> after the \<open>try\<close> block.
  \<open>update_config\<close> is the value of \<open>config\<close> when the script reaches the write, and
  \<open>hydrate\<close> is the document it writes back. An uncaught exception ends the script
  before the write.
\<close>

definition script :: "env \<Rightarrow> stmt list" where
  "script e =
     ensure_nested_objects @ [cleanup_anthropic] @ gateway_configuration e
     @ channel_configuration e @ provider_configuration e"

definition initial_config :: "json option \<Rightarrow> json" where
  "initial_config persisted = (case persisted of None \<Rightarrow> JObj [] | Some c \<Rightarrow> c)"

definition update_config :: "env \<Rightarrow> json option \<Rightarrow> js_error + json" where
  "update_config e persisted = run (script e) (initial_config persisted)"

definition hydrate :: "env \<Rightarrow> json option \<Rightarrow> js_error + json" where
  "hydrate e persisted =
     (case update_config e persisted of Inl err \<Rightarrow> Inl err | Inr c \<Rightarrow> Inr (written c))"


subsection \<open>Shapes of documents\<close>

fun is_obj :: "json \<Rightarrow> bool" where
  "is_obj (JObj kvs) = True"
| "is_obj v = False"

fun is_container :: "json \<Rightarrow> bool" where
  "is_container (JObj kvs) = True"
| "is_container (JArr es xs) = True"
| "is_container v = False"

text \<open>
  \<open>settable p c\<close>: every value the path \<open>p\<close> passes through before its last step
  can hold properties, so that an assignment at \<open>p\<close> takes effect.
\<close>

fun settable :: "string list \<Rightarrow> json \<Rightarrow> bool" where
  "settable [] c = True"
| "settable (k # ks) c = (is_container c \<and> settable ks (own_prop c k))"

definition obj_or_falsy :: "json \<Rightarrow> bool" where
  "obj_or_falsy v = (is_obj v \<or> \<not> truthy v)"


subsection \<open>Symbolic description of a document\<close>

text \<open>
  \<open>shape S F V c\<close> describes the document \<open>c\<close> by three lists of property paths:
  at every path of \<open>S\<close> the document holds an object, at every path of \<open>F\<close> it holds
  an object or a falsy value, and at every path of \<open>V\<close> it holds the value listed.
  \<open>runs_to ss Q c\<close>: the statements \<open>ss\<close> run from \<open>c\<close> without throwing and end in a
  document that satisfies \<open>Q\<close>.
\<close>

definition objs :: "string list list \<Rightarrow> json \<Rightarrow> bool" where
  "objs S c = list_all (\<lambda>q. is_obj (peek q c)) S"

definition lax :: "string list list \<Rightarrow> json \<Rightarrow> bool" where
  "lax F c = list_all (\<lambda>q. obj_or_falsy (peek q c)) F"

definition vals :: "(string list \<times> json) list \<Rightarrow> json \<Rightarrow> bool" where
  "vals V c = list_all (\<lambda>(q, v). peek q c = v) V"

definition shape :: "string list list \<Rightarrow> string list list \<Rightarrow> (string list \<times> json) list \<Rightarrow> json \<Rightarrow> bool" where
  "shape S F V c = (objs S c \<and> lax F c \<and> vals V c)"

definition expected_objects :: "string list list" where
  "expected_objects =
     [[''agents''], [''agents'', ''defaults''], [''agents'', ''defaults'', ''model''],
      [''agents'', ''defaults'', ''models''],
      [''gateway''], [''gateway'', ''http''], [''gateway'', ''http'', ''endpoints''],
      [''gateway'', ''auth''], [''gateway'', ''controlUi''],
      [''channels''], [''channels'', ''telegram''], [''channels'', ''telegram'', ''dm''],
      [''channels'', ''discord''], [''channels'', ''discord'', ''dm''], [''channels'', ''slack''],
      [''models''], [''models'', ''providers'']]"

definition nested :: "string list list" where
  "nested = [[''channels''], [''gateway''], [''agents'', ''defaults'', ''model''],
             [''agents'', ''defaults''], [''agents''], []]"

definition runs_to :: "stmt list \<Rightarrow> (json \<Rightarrow> bool) \<Rightarrow> json \<Rightarrow> bool" where
  "runs_to ss Q c = (\<exists>c'. run ss c = Inr c' \<and> Q c')"

definition gw_objs :: "string list list" where
  "gw_objs = [''gateway'', ''http'', ''endpoints''] # [''gateway'', ''http''] # nested"

definition gw_vals :: "(string list \<times> json) list" where
  "gw_vals =
     [([''gateway'', ''http'', ''endpoints'', ''chatCompletions''], JObj [(''enabled'', JBool True)]),
      ([''gateway'', ''trustedProxies''], JArr [JStr ''10.1.0.0''] []),
      ([''gateway'', ''mode''], JStr ''local''),
      ([''gateway'', ''port''], JNum 18789)]"

definition mid_vals :: "json \<Rightarrow> (string list \<times> json) list" where
  "mid_vals a = gw_vals @ [([''models'', ''providers'', ''anthropic''], a)]"

definition prov_objs :: "string list list" where
  "prov_objs = [[''agents'', ''defaults'', ''models''], [''models'', ''providers''], [''models'']]"

definition anthropic_models_ok :: "json \<Rightarrow> bool" where
  "anthropic_models_ok ms = (\<not> truthy ms \<or> hasInvalidModels ms \<noteq> Inl TypeError)"

definition well_shaped :: "json \<Rightarrow> bool" where
  "well_shaped c =
     (is_obj c \<and> lax expected_objects c
      \<and> anthropic_models_ok (peek [''models'', ''providers'', ''anthropic'', ''models''] c))"

definition primary_model :: "env \<Rightarrow> string" where
  "primary_model e =
     (if isWorkersAI e then ''openai/llama-3.1-8b-instruct''
      else if isOpenAI e then
        (if isGroq e
         then (if is_set (MISTRAL_API_KEY e) then ''mistral/mistral-small-latest''
               else ''openai/llama-3.3-70b-versatile'')
         else ''openai/gpt-5.2'')
      else if baseUrl e \<noteq> [] then ''anthropic/claude-opus-4-5-20251101''
      else if is_set (ANTHROPIC_API_KEY e) then ''anthropic/claude-3-5-sonnet-latest''
      else ''anthropic/claude-opus-4-5'')"

definition final_objs :: "env \<Rightarrow> string list list" where
  "final_objs e =
     (if isWorkersAI e \<or> isOpenAI e \<or> baseUrl e \<noteq> [] \<or> is_set (ANTHROPIC_API_KEY e)
      then prov_objs @ gw_objs else gw_objs)"

definition final_vals :: "env \<Rightarrow> json \<Rightarrow> (string list \<times> json) list" where
  "final_vals e a =
     ([''agents'', ''defaults'', ''model'', ''primary''], JStr (primary_model e)) #
     (if isWorkersAI e
      then ([''models'', ''providers'', ''openai''], workers_ai_provider e) # mid_vals a
      else if isOpenAI e
      then ([''models'', ''providers'', ''openai''],
            if isGroq e then groq_provider e else generic_openai_provider e) # mid_vals a
      else if baseUrl e \<noteq> []
      then ([''models'', ''providers'', ''anthropic''], anthropic_baseurl_provider e) # gw_vals
      else if is_set (ANTHROPIC_API_KEY e)
      then ([''models'', ''providers'', ''anthropic''], anthropic_direct_provider e) # gw_vals
      else mid_vals a)"

text \<open>
  \<open>ends_in ss Q c\<close>: whenever the statements \<open>ss\<close> run from \<open>c\<close> without throwing, the
  document they end in satisfies \<open>Q\<close>. A statement is \<open>inert\<close> for a description when it
  cannot invalidate it.
\<close>

definition inert :: "string list list \<Rightarrow> string list list \<Rightarrow> (string list \<times> json) list \<Rightarrow> stmt \<Rightarrow> bool" where
  "inert S F V s = (\<forall>c c'. shape S F V c \<longrightarrow> s c = Inr c' \<longrightarrow> shape S F V c')"

definition ends_in :: "stmt list \<Rightarrow> (json \<Rightarrow> bool) \<Rightarrow> json \<Rightarrow> bool" where
  "ends_in ss Q c = (\<forall>c'. run ss c = Inr c' \<longrightarrow> Q c')"

text \<open>
  The parts of the expected shape that matter for the gateway fields, for the default
  model and for the provider entries.
\<close>

definition gateway_chain :: "string list list" where
  "gateway_chain = [[''gateway''], [''gateway'', ''http''], [''gateway'', ''http'', ''endpoints'']]"

definition gateway_shape :: "json \<Rightarrow> bool" where
  "gateway_shape c = (is_obj c \<and> lax gateway_chain c)"

definition model_chain :: "string list list" where
  "model_chain = [[''agents''], [''agents'', ''defaults''], [''agents'', ''defaults'', ''model'']]"

definition model_objs :: "string list list" where
  "model_objs = [[''agents'', ''defaults'', ''model''], [''agents'', ''defaults''], [''agents''], []]"

definition model_shape :: "json \<Rightarrow> bool" where
  "model_shape c = (is_obj c \<and> lax model_chain c)"

definition providers_objs :: "string list list" where
  "providers_objs = [[''models'', ''providers''], [''models''], []]"

definition providers_shape :: "json \<Rightarrow> bool" where
  "providers_shape c = objs providers_objs c"

definition after_cleanup :: "json \<Rightarrow> json \<Rightarrow> json" where
  "after_cleanup ms a = (if hasInvalidModels ms = Inr True then JUndef else a)"

definition persisted_anthropic :: "json \<Rightarrow> json" where
  "persisted_anthropic c =
     after_cleanup (peek [''models'', ''providers'', ''anthropic'', ''models''] c)
       (peek [''models'', ''providers'', ''anthropic''] c)"






subsection \<open>Sample environments and documents\<close>

text \<open>The environment in which none of the variables is set.\<close>

definition no_env :: env where
  "no_env = \<lparr>CLAWDBOT_GATEWAY_TOKEN = None, CLAWDBOT_DEV_MODE = None, TELEGRAM_BOT_TOKEN = None,
    TELEGRAM_DM_POLICY = None, DISCORD_BOT_TOKEN = None, DISCORD_DM_POLICY = None,
    SLACK_BOT_TOKEN = None, SLACK_APP_TOKEN = None, AI_GATEWAY_BASE_URL = None,
    OPENAI_BASE_URL = None, ANTHROPIC_BASE_URL = None, USE_WORKERS_AI = None,
    OPENAI_API_KEY = None, AI_GATEWAY_API_KEY = None, MISTRAL_API_KEY = None,
    ANTHROPIC_API_KEY = None\<rparr>"

text \<open>A persisted document whose gateway fields all differ from the canonical ones.\<close>

definition stale_gateway_config :: json where
  "stale_gateway_config =
     JObj [(''gateway'',
            JObj [(''port'', JNum 9999), (''mode'', JStr ''remote''),
                  (''trustedProxies'', JArr [] []),
                  (''http'', JObj [(''endpoints'',
                     JObj [(''chatCompletions'', JObj [(''enabled'', JBool False)])])])])]"

text \<open>A persisted document whose default model is a plain string, not an object.\<close>

definition string_model_config :: json where
  "string_model_config =
     JObj [(''agents'', JObj [(''defaults'', JObj [(''model'', JStr ''anthropic/claude-opus-4-5'')])])]"


subsection \<open>Provider precedence as the specification words it\<close>

text \<open>
  Section 4.2 of the specification lists five rules and says that the first one that
  matches wins: (1) managed inference, when the flag is set or the base URL points at
  the system's own inference proxy path; (2) a third-party OpenAI-compatible base URL,
  recognised by its path or by a known vendor host; (3) any other base URL, taken as
  Anthropic-compatible; (4) a direct credential for the default provider; (5) the static
  default. \<open>spec_select\<close> is this first-match selection, written without reference
  to the script's \<open>if\<close> chain; \<open>branch_of\<close> names the branch of the script that
  configures each rule.
\<close>

datatype rule = ManagedInference | ThirdPartyOpenAI | AnthropicBaseUrl | DirectCredential | StaticDefault






text \<open>
  The value of \<open>models.providers.anthropic\<close> that the provider branch for \<open>e\<close> leaves
  when no such entry is present before it: the entry of the two Anthropic branches,
  nothing otherwise.
\<close>

definition anthropic_override :: "env \<Rightarrow> json" where
  "anthropic_override e =
     (if isWorkersAI e \<or> isOpenAI e then JUndef
      else if baseUrl e \<noteq> [] then anthropic_baseurl_provider e
      else if is_set (ANTHROPIC_API_KEY e) then anthropic_direct_provider e
      else JUndef)"

text \<open>
  The names under \<open>models.providers\<close> that the provider branch for \<open>e\<close> assigns.
\<close>

definition branch_providers :: "env \<Rightarrow> string list" where
  "branch_providers e =
     (if isWorkersAI e then [''openai'']
      else if isOpenAI e then
        (if isGroq e \<and> is_set (MISTRAL_API_KEY e) then [''openai'', ''mistral''] else [''openai''])
      else if baseUrl e \<noteq> [] then [''anthropic'']
      else if is_set (ANTHROPIC_API_KEY e) then [''anthropic'']
      else [])"

text \<open>A persisted \<open>openai\<close> provider whose model record has an \<open>id\<close> but no \<open>name\<close>.\<close>

definition nameless_openai_config :: json where
  "nameless_openai_config =
     JObj [(''models'', JObj [(''providers'', JObj [(''openai'',
        JObj [(''baseUrl'', JStr ''https://api.openai.com/v1''),
              (''models'', JArr [JObj [(''id'', JStr ''gpt-4o'')]] [])])])])]"

text \<open>
  A persisted \<open>anthropic\<close> provider whose second model record has no \<open>name\<close>, next
  to a well-formed \<open>mistral\<close> provider; and an environment with only the direct
  Anthropic credential.
\<close>

definition second_nameless_models :: "json list" where
  "second_nameless_models =
     [JObj [(''id'', JStr ''claude-3-5-sonnet-latest''), (''name'', JStr ''Claude 3.5 Sonnet'')],
      JObj [(''id'', JStr ''claude-3-opus-latest'')]]"

definition persisted_mistral :: json where
  "persisted_mistral =
     JObj [(''baseUrl'', JStr ''https://api.mistral.ai/v1''),
           (''models'', JArr [JObj [(''id'', JStr ''mistral-small-latest''),
                                    (''name'', JStr ''Mistral Small'')]] [])]"

definition second_nameless_config :: json where
  "second_nameless_config =
     JObj [(''models'', JObj [(''providers'', JObj [
        (''anthropic'',
           JObj [(''baseUrl'', JStr ''https://api.anthropic.com''),
                 (''models'', JArr second_nameless_models [])]),
        (''mistral'', persisted_mistral)])])]"

definition direct_key_env :: env where
  "direct_key_env = no_env\<lparr>ANTHROPIC_API_KEY := Some ''sk-ant-key''\<rparr>"



section \<open>The start script as a whole\<close>

text \<open>
  The part of the container that \<open>start-moltbot.sh\<close> reads and changes. A file that holds
  a configuration is \<open>None\<close> when it does not exist and \<open>Some d\<close> when it does, where \<open>d\<close>
  is what \<open>JSON.parse\<close> makes of its text (\<open>None\<close> when the text does not parse).
  \<open>gateway_pids\<close> are the processes that \<open>pgrep -f "clawdbot gateway"\<close> finds,
  \<open>gateway_responsive\<close> is the result of the health request to port 18789,
  \<open>backup_config\<close> and \<open>backup_legacy\<close> are the configuration files of the two backup
  layouts, \<open>backup_skills\<close> says whether the backup has a non-empty skills directory, and
  \<open>r2_sync\<close> and \<open>local_sync\<close> are the two sync markers. The workspace files that the
  script copies from its templates are not part of this state.
\<close>

record container =
  gateway_pids :: "nat list"
  gateway_responsive :: bool
  backup_config :: "json option option"
  backup_legacy :: "json option option"
  backup_skills :: bool
  r2_sync :: "string option"
  local_sync :: "string option"
  config_file :: "json option option"
  template_file :: "json option option"

datatype event =
    RestoredConfig
  | RestoredLegacy
  | RestoredSkills
  | ConfigWritten
  | KilledOrphans

text \<open>
  How the script ends: with \<open>exit 0\<close> because a responsive gateway is already there,
  with the node script's uncaught exception (under \<open>set -e\<close>), or by replacing itself
  with the gateway process through \<open>exec\<close>.
\<close>

datatype outcome =
    AlreadyRunning
  | NodeFailed js_error
  | ExecGateway "string list"

text \<open>
  The configuration restore copies the backup over the local configuration and then the
  remote marker over the local one. The skills restore asks \<open>should_restore_from_r2\<close>
  again, on the markers as they are by then.
\<close>

definition restore_config :: "(string \<Rightarrow> int option) \<Rightarrow> container \<Rightarrow> event list \<times> container" where
  "restore_config date s =
     (if backup_config s \<noteq> None then
        (if should_restore_from_r2 date (r2_sync s) (local_sync s)
         then ([RestoredConfig], s\<lparr>config_file := backup_config s, local_sync := r2_sync s\<rparr>)
         else ([], s))
      else if backup_legacy s \<noteq> None then
        (if should_restore_from_r2 date (r2_sync s) (local_sync s)
         then ([RestoredLegacy], s\<lparr>config_file := backup_legacy s, local_sync := r2_sync s\<rparr>)
         else ([], s))
      else ([], s))"

definition restore_skills :: "(string \<Rightarrow> int option) \<Rightarrow> container \<Rightarrow> event list \<times> container" where
  "restore_skills date s =
     (if backup_skills s \<and> should_restore_from_r2 date (r2_sync s) (local_sync s)
      then ([RestoredSkills], s) else ([], s))"

text \<open>The configuration the script writes when there is neither a file nor a template.\<close>

definition minimal_config :: json where
  "minimal_config =
     JObj [(''agents'', JObj [(''defaults'', JObj [(''workspace'', JStr ''/root/clawd'')])]),
           (''gateway'', JObj [(''port'', JNum 18789), (''mode'', JStr ''local'')])]"

definition init_config :: "container \<Rightarrow> json option" where
  "init_config s =
     (case config_file s of
        Some d \<Rightarrow> d
      | None \<Rightarrow> (case template_file s of Some t \<Rightarrow> t | None \<Rightarrow> Some minimal_config))"

definition gateway_args :: "env \<Rightarrow> string list" where
  "gateway_args e =
     [''clawdbot'', ''gateway'', ''--port'', ''18789'', ''--verbose'', ''--allow-unconfigured'',
      ''--bind'', ''lan'']
     @ (case CLAWDBOT_GATEWAY_TOKEN e of
          None \<Rightarrow> []
        | Some t \<Rightarrow> if t = [] then [] else [''--token'', t])"

definition start_moltbot ::
  "env \<Rightarrow> (string \<Rightarrow> int option) \<Rightarrow> container \<Rightarrow> outcome \<times> event list \<times> container" where
  "start_moltbot e date s =
     (if gateway_pids s \<noteq> [] \<and> gateway_responsive s then (AlreadyRunning, [], s)
      else
        (case restore_config date s of (ev1, s1) \<Rightarrow>
         case restore_skills date s1 of (ev2, s2) \<Rightarrow>
         case hydrate e (init_config s2) of
           Inl err \<Rightarrow> (NodeFailed err, ev1 @ ev2, s2\<lparr>config_file := Some (init_config s2)\<rparr>)
         | Inr c \<Rightarrow>
             (ExecGateway (gateway_args e), ev1 @ ev2 @ [ConfigWritten, KilledOrphans],
              s2\<lparr>config_file := Some (Some c), gateway_pids := []\<rparr>)))"

text \<open>Sample inputs: a date parser that knows two timestamps, and two containers.\<close>

definition sample_date :: "string \<Rightarrow> int option" where
  "sample_date t =
     (if t = ''2026-01-01T00:00:00+00:00'' then Some 1767225600
      else if t = ''2026-01-02T00:00:00+00:00'' then Some 1767312000
      else None)"

definition running_container :: container where
  "running_container =
     \<lparr>gateway_pids = [42], gateway_responsive = True,
      backup_config = Some (Some minimal_config), backup_legacy = None, backup_skills = True,
      r2_sync = Some ''2026-01-02T00:00:00+00:00'', local_sync = Some ''2026-01-01T00:00:00+00:00'',
      config_file = Some (Some minimal_config), template_file = None\<rparr>"

definition stale_container :: container where
  "stale_container =
     running_container\<lparr>gateway_pids := [], gateway_responsive := False\<rparr>"


section \<open>Session Store\<close>

text \<open>
  The handlers of the session routes (\<open>src/routes/api.ts\<close>) are not among the sources;
  only their tests are. The definitions of this section follow sections 4.3 and 6 of the
  specification. \<open>JSON.parse\<close> is the parameter \<open>parse\<close>, which gives \<open>None\<close> for a
  text that does not parse.
\<close>

record 's session_list =
  sessions :: "'s list"
  raw :: "string option"

text \<open>
  Modelled from the spec: \<open>listSessions\<close>, the handler of \<open>GET sessions\<close>, is missing.
  It parses the output of the listing subprocess as a JSON document that contains the
  session records (\<open>sessions_of\<close> reads them from the document); if the output cannot be
  parsed as JSON at all, it returns an empty session list plus the raw output text
  rather than failing the request.
\<close>

definition listSessions ::
  "(string \<Rightarrow> 'd option) \<Rightarrow> ('d \<Rightarrow> 's list) \<Rightarrow> string \<Rightarrow> nat \<times> 's session_list" where
  "listSessions parse sessions_of stdout =
     (case parse stdout of
        None \<Rightarrow> (200, \<lparr>sessions = [], raw = Some stdout\<rparr>)
      | Some d \<Rightarrow> (200, \<lparr>sessions = sessions_of d, raw = None\<rparr>))"

datatype store_error = SessionNotFound

text \<open>
  Modelled from the spec: the read of the transcript is missing. Only the last \<open>limit\<close>
  lines of the transcript file are read.
\<close>

definition last_lines :: "nat \<Rightarrow> string list \<Rightarrow> string list" where
  "last_lines limit ls = drop (length ls - limit) ls"

text \<open>
  Modelled from the spec: \<open>getHistory\<close>, the handler of \<open>GET sessions/:key/history\<close>, is
  missing. The session index maps a session key to the path of its transcript file; a
  key absent from the index fails with \<open>SessionNotFound\<close>. Otherwise the last \<open>limit\<close>
  lines of the transcript (\<open>read_lines\<close> gives the lines of a file) are each parsed
  independently as one JSON message record, and a line that fails to parse is skipped.
\<close>

definition getHistory ::
  "(string \<Rightarrow> 'm option) \<Rightarrow> (string \<rightharpoonup> string) \<Rightarrow> (string \<Rightarrow> string list) \<Rightarrow>
   string \<Rightarrow> nat \<Rightarrow> store_error + 'm list" where
  "getHistory parse index read_lines sessionKey limit =
     (case index sessionKey of
        None \<Rightarrow> Inl SessionNotFound
      | Some path \<Rightarrow> Inr (List.map_filter parse (last_lines limit (read_lines path))))"

datatype 'm history_body = Messages "'m list" | HistoryError string

text \<open>
  Modelled from the spec: the translation of the result of \<open>getHistory\<close> to a response
  is missing. Section 6 gives \<open>{messages}\<close>, or status 404 with
  \<open>{error: "Session not found"}\<close>.
\<close>

definition history_response :: "store_error + 'm list \<Rightarrow> nat \<times> 'm history_body" where
  "history_response r =
     (case r of
        Inl SessionNotFound \<Rightarrow> (404, HistoryError ''Session not found'')
      | Inr ms \<Rightarrow> (200, Messages ms))"

text \<open>
  Sample inputs: a parser that accepts the lines starting with a brace, a session index
  with one key, and two transcripts.
\<close>

definition sample_parse :: "string \<Rightarrow> string option" where
  "sample_parse l = (case l of [] \<Rightarrow> None | c # cs \<Rightarrow> if c = CHR ''{'' then Some l else None)"

definition sample_index :: "string \<rightharpoonup> string" where
  "sample_index k = (if k = ''agent:main:telegram:123'' then Some ''/s/abc.jsonl'' else None)"

definition five_lines :: "string \<Rightarrow> string list" where
  "five_lines f = [''{1}'', ''{2}'', ''{3}'', ''{4}'', ''{5}'']"

definition damaged_lines :: "string \<Rightarrow> string list" where
  "damaged_lines f = [''{1}'', ''{2}'', ''oops'', ''{4}'', ''not json'']"


section \<open>Properties\<close>

subsection \<open>Property paths under assignment\<close>

lemma own_prop_put_prop:
  "own_prop (put_prop c k v) k' = (if is_container c \<and> k' = k then v else own_prop c k')"
  by (cases c) (auto simp: update_conv')

lemma nullish_put_prop [simp]: "nullish (put_prop c k v) = nullish c"
  by (cases c) auto

lemma is_obj_put_prop [simp]: "is_obj (put_prop c k v) = is_obj c"
  by (cases c) auto

lemma is_container_put_prop [simp]: "is_container (put_prop c k v) = is_container c"
  by (cases c) auto

lemma truthy_put_prop [simp]: "truthy (put_prop c k v) = truthy c"
  by (cases c) auto

lemma peek_nullish [simp]: "nullish c \<Longrightarrow> peek p c = (if p = [] then c else JUndef)"
  by (cases p) auto

lemma peek_JUndef [simp]: "peek p JUndef = JUndef"
  by (cases p) auto

lemma own_prop_nullish [simp]: "nullish c \<Longrightarrow> own_prop c k = JUndef"
  by (cases c) auto

lemma peek_Cons: "peek (k # ks) c = peek ks (own_prop c k)"
  by (cases "nullish c") auto

lemma peek_append: "peek (p @ q) c = peek q (peek p c)"
  by (induction p arbitrary: c) (auto simp: peek_Cons simp del: peek.simps(2))

lemma assign_frame:
  "assign p x c = Inr c' \<Longrightarrow> \<not> prefix p q \<Longrightarrow> \<not> prefix q p \<Longrightarrow> peek q c' = peek q c"
proof (induction p arbitrary: q c c')
  case Nil
  then show ?case by simp
next
  case (Cons k ks)
  from Cons.prems(1) obtain v where nn: "\<not> nullish c" and v: "assign ks x (own_prop c k) = Inr v"
    and c': "c' = put_prop c k v"
    by (auto split: if_splits sum.splits)
  from Cons.prems(3) obtain k' qs where q: "q = k' # qs" by (cases q) auto
  show ?case
  proof (cases "is_container c \<and> k' = k")
    case True
    with Cons.prems q have "\<not> prefix ks qs" "\<not> prefix qs ks" by auto
    from Cons.IH[OF v this] True show ?thesis
      by (simp add: q c' peek_Cons own_prop_put_prop del: peek.simps(2))
  next
    case False
    then show ?thesis by (auto simp add: q c' peek_Cons own_prop_put_prop simp del: peek.simps(2))
  qed
qed

lemma assign_hit:
  "assign p x c = Inr c' \<Longrightarrow> settable p c \<Longrightarrow> peek p c' = x"
proof (induction p arbitrary: c c')
  case Nil
  then show ?case by simp
next
  case (Cons k ks)
  from Cons.prems(1) obtain v where nn: "\<not> nullish c" and v: "assign ks x (own_prop c k) = Inr v"
    and c': "c' = put_prop c k v"
    by (auto split: if_splits sum.splits)
  from Cons.prems(2) have "is_container c" "settable ks (own_prop c k)" by auto
  with Cons.IH[OF v] show ?case
    by (simp add: c' peek_Cons own_prop_put_prop del: peek.simps(2))
qed

lemma assign_above:
  "assign p x c = Inr c' \<Longrightarrow> strict_prefix q p \<Longrightarrow>
     is_obj (peek q c') = is_obj (peek q c) \<and> is_container (peek q c') = is_container (peek q c)
     \<and> truthy (peek q c') = truthy (peek q c)"
proof (induction p arbitrary: q c c')
  case Nil
  then show ?case by simp
next
  case (Cons k ks)
  from Cons.prems(1) obtain v where nn: "\<not> nullish c" and v: "assign ks x (own_prop c k) = Inr v"
    and c': "c' = put_prop c k v"
    by (auto split: if_splits sum.splits)
  show ?case
  proof (cases q)
    case Nil
    then show ?thesis by (simp add: c')
  next
    case (Cons k' qs)
    with Cons.prems(2) have kk: "k' = k" and sp: "strict_prefix qs ks" by auto
    show ?thesis
    proof (cases "is_container c")
      case True
      with Cons.IH[OF v sp] show ?thesis
        by (simp add: Cons kk c' peek_Cons own_prop_put_prop del: peek.simps(2))
    next
      case False
      then have "c' = c" using c' by (cases c) auto
      then show ?thesis by simp
    qed
  qed
qed

lemma settable_iff: "settable p c \<longleftrightarrow> (\<forall>q. strict_prefix q p \<longrightarrow> is_container (peek q c))"
proof (induction p arbitrary: c)
  case Nil
  then show ?case by simp
next
  case (Cons k ks)
  show ?case
  proof
    assume a: "settable (k # ks) c"
    show "\<forall>q. strict_prefix q (k # ks) \<longrightarrow> is_container (peek q c)"
    proof (intro allI impI)
      fix q assume sp: "strict_prefix q (k # ks)"
      show "is_container (peek q c)"
      proof (cases q)
        case Nil then show ?thesis using a by simp
      next
        case (Cons k' qs)
        with sp have "k' = k" "strict_prefix qs ks" by auto
        with a Cons.IH[of "own_prop c k"] show ?thesis
          by (simp add: Cons peek_Cons del: peek.simps(2))
      qed
    qed
  next
    assume a: "\<forall>q. strict_prefix q (k # ks) \<longrightarrow> is_container (peek q c)"
    then have "is_container c" by (metis peek.simps(1) strict_prefix_simps(2))
    moreover have "settable ks (own_prop c k)"
      unfolding Cons.IH
    proof (intro allI impI)
      fix q assume "strict_prefix q ks"
      then have "strict_prefix (k # q) (k # ks)" by simp
      with a have "is_container (peek (k # q) c)" by blast
      then show "is_container (peek q (own_prop c k))" by (simp add: peek_Cons del: peek.simps(2))
    qed
    ultimately show "settable (k # ks) c" by simp
  qed
qed

lemma settable_ok: "settable p c \<Longrightarrow> \<exists>c'. assign p x c = Inr c'"
proof (induction p arbitrary: c)
  case Nil
  then show ?case by simp
next
  case (Cons k ks)
  then have "is_container c" "settable ks (own_prop c k)" by auto
  from Cons.IH[OF this(2)] obtain v where "assign ks x (own_prop c k) = Inr v" by blast
  moreover have "\<not> nullish c" using \<open>is_container c\<close> by (cases c) auto
  ultimately show ?case by simp
qed

lemma settable_js_get: "settable p c \<Longrightarrow> js_get p c = Inr (peek p c)"
proof (induction p arbitrary: c)
  case Nil
  then show ?case by simp
next
  case (Cons k ks)
  then have "is_container c" "settable ks (own_prop c k)" by auto
  moreover have "\<not> nullish c" using \<open>is_container c\<close> by (cases c) auto
  ultimately show ?case using Cons.IH by simp
qed

lemma js_get_peek: "js_get p c = Inr v \<Longrightarrow> v = peek p c"
  by (induction p arbitrary: c) (auto split: if_splits)

lemma put_prop_same: "own_prop c k = w \<Longrightarrow> w \<noteq> JUndef \<Longrightarrow> put_prop c k w = c"
  by (cases c) (auto split: option.splits simp: update_triv)

lemma assign_same:
  "js_get p c = Inr v \<Longrightarrow> truthy v \<Longrightarrow> assign p v c = Inr c"
proof (induction p arbitrary: c)
  case Nil
  then show ?case by simp
next
  case (Cons k ks)
  from Cons.prems have nn: "\<not> nullish c" and g: "js_get ks (own_prop c k) = Inr v"
    by (auto split: if_splits)
  from Cons.IH[OF g Cons.prems(2)] have a: "assign ks v (own_prop c k) = Inr (own_prop c k)" .
  have "own_prop c k \<noteq> JUndef"
  proof
    assume u: "own_prop c k = JUndef"
    with g Cons.prems(2) show False by (cases ks) auto
  qed
  then have "put_prop c k (own_prop c k) = c" by (simp add: put_prop_same)
  with nn a show ?case by simp
qed

lemma ensure_unfold:
  "ensure p c =
     (case js_get p c of Inl e \<Rightarrow> Inl e
      | Inr v \<Rightarrow> if truthy v then Inr c else assign p (JObj []) c)"
  by (auto simp: ensure_def assign_same split: sum.splits)

lemma not_settable_same:
  "assign p x c = Inr c' \<Longrightarrow> \<not> settable p c \<Longrightarrow> c' = c"
proof (induction p arbitrary: c c')
  case Nil
  then show ?case by simp
next
  case (Cons k ks)
  from Cons.prems(1) obtain v where nn: "\<not> nullish c" and v: "assign ks x (own_prop c k) = Inr v"
    and c': "c' = put_prop c k v"
    by (auto split: if_splits sum.splits)
  show ?case
  proof (cases "is_container c")
    case True
    with Cons.prems(2) have ns: "\<not> settable ks (own_prop c k)" by simp
    from Cons.IH[OF v ns] have vv: "v = own_prop c k" .
    have "own_prop c k \<noteq> JUndef"
    proof
      assume u: "own_prop c k = JUndef"
      with ns v show False by (cases ks) auto
    qed
    with vv c' show ?thesis by (simp add: put_prop_same)
  next
    case False
    then show ?thesis using c' by (cases c) auto
  qed
qed

lemma falsy_peek: "\<not> truthy v \<Longrightarrow> r \<noteq> [] \<Longrightarrow> peek r v = JUndef"
  by (cases r; cases v) auto

lemma ensure_frame:
  assumes "ensure p c = Inr c'" "\<not> prefix q p"
  shows "peek q c' = peek q c"
proof -
  from assms(1) obtain v where g: "js_get p c = Inr v"
    by (auto simp: ensure_unfold split: sum.splits)
  then have v: "v = peek p c" by (rule js_get_peek)
  show ?thesis
  proof (cases "truthy v")
    case True
    with assms(1) g show ?thesis by (simp add: ensure_unfold)
  next
    case False
    with assms(1) g have a: "assign p (JObj []) c = Inr c'" by (simp add: ensure_unfold)
    show ?thesis
    proof (cases "prefix p q")
      case np: False
      from assign_frame[OF a np assms(2)] show ?thesis .
    next
      case True
      then obtain r where q: "q = p @ r" by (auto simp: prefix_def)
      with assms(2) have r: "r \<noteq> []" by auto
      show ?thesis
      proof (cases "settable p c")
        case s: True
        from assign_hit[OF a s] have "peek p c' = JObj []" .
        then have "peek q c' = JUndef" using r by (cases r) (auto simp: q peek_append)
        moreover have "peek q c = JUndef" using False v r by (simp add: q peek_append falsy_peek)
        ultimately show ?thesis by simp
      next
        case s: False
        from not_settable_same[OF a s] show ?thesis by simp
      qed
    qed
  qed
qed

lemma ensure_above:
  assumes "ensure p c = Inr c'" "strict_prefix q p"
  shows "is_obj (peek q c') = is_obj (peek q c) \<and> truthy (peek q c') = truthy (peek q c)"
proof -
  from assms(1) obtain v where g: "js_get p c = Inr v"
    by (auto simp: ensure_unfold split: sum.splits)
  show ?thesis
  proof (cases "truthy v")
    case True
    with assms(1) g show ?thesis by (simp add: ensure_unfold)
  next
    case False
    with assms(1) g have a: "assign p (JObj []) c = Inr c'" by (simp add: ensure_unfold)
    from assign_above[OF a assms(2)] show ?thesis by simp
  qed
qed

lemma ensure_hit:
  assumes "ensure p c = Inr c'" "settable p c" "obj_or_falsy (peek p c)"
  shows "is_obj (peek p c')"
proof -
  from assms(2) have g: "js_get p c = Inr (peek p c)" by (rule settable_js_get)
  show ?thesis
  proof (cases "truthy (peek p c)")
    case True
    with assms(1) g have "c' = c" by (simp add: ensure_unfold)
    with True assms(3) show ?thesis by (simp add: obj_or_falsy_def)
  next
    case False
    with assms(1) g have a: "assign p (JObj []) c = Inr c'" by (simp add: ensure_unfold)
    from assign_hit[OF a assms(2)] show ?thesis by simp
  qed
qed

lemma ensure_ok: "settable p c \<Longrightarrow> \<exists>c'. ensure p c = Inr c'"
  using settable_ok[of p c "JObj []"] by (auto simp: ensure_unfold settable_js_get)


subsection \<open>Running the script on a document of the expected shape\<close>

lemma own_prop_del_prop:
  "own_prop (del_prop c k) k' = (if is_container c \<and> k' = k then JUndef else own_prop c k')"
  by (cases c) (auto simp: delete_conv' split: option.splits)

lemma nullish_del_prop [simp]: "nullish (del_prop c k) = nullish c"
  by (cases c) auto

lemma is_obj_del_prop [simp]: "is_obj (del_prop c k) = is_obj c"
  by (cases c) auto

lemma truthy_del_prop [simp]: "truthy (del_prop c k) = truthy c"
  by (cases c) auto

lemma js_delete_Cons:
  "ks \<noteq> [] \<Longrightarrow> js_delete (k # ks) c =
     (if nullish c then Inl TypeError
      else (case js_delete ks (own_prop c k) of Inl e \<Rightarrow> Inl e | Inr v \<Rightarrow> Inr (put_prop c k v)))"
  by (cases ks) auto

lemma delete_frame:
  "js_delete p c = Inr c' \<Longrightarrow> \<not> prefix p q \<Longrightarrow> \<not> prefix q p \<Longrightarrow> peek q c' = peek q c"
proof (induction p arbitrary: q c c')
  case Nil
  then show ?case by simp
next
  case (Cons k ks)
  from Cons.prems(3) obtain k' qs where q: "q = k' # qs" by (cases q) auto
  show ?case
  proof (cases "ks = []")
    case True
    with Cons.prems have c': "c' = del_prop c k" and kk: "k' \<noteq> k"
      by (auto simp: q split: if_splits)
    then show ?thesis
      by (simp add: q peek_Cons own_prop_del_prop del: peek.simps(2))
  next
    case False
    with Cons.prems(1) obtain v where nn: "\<not> nullish c"
      and v: "js_delete ks (own_prop c k) = Inr v" and c': "c' = put_prop c k v"
      by (auto simp: js_delete_Cons split: if_splits sum.splits)
    show ?thesis
    proof (cases "is_container c \<and> k' = k")
      case True
      with Cons.prems q have "\<not> prefix ks qs" "\<not> prefix qs ks" by auto
      from Cons.IH[OF v this] True show ?thesis
        by (simp add: q c' peek_Cons own_prop_put_prop del: peek.simps(2))
    next
      case False
      then show ?thesis
        by (auto simp add: q c' peek_Cons own_prop_put_prop simp del: peek.simps(2))
    qed
  qed
qed

lemma delete_above:
  "js_delete p c = Inr c' \<Longrightarrow> strict_prefix q p \<Longrightarrow>
     is_obj (peek q c') = is_obj (peek q c) \<and> truthy (peek q c') = truthy (peek q c)"
proof (induction p arbitrary: q c c')
  case Nil
  then show ?case by simp
next
  case (Cons k ks)
  show ?case
  proof (cases "ks = []")
    case True
    with Cons.prems have c': "c' = del_prop c k"
      by (auto split: if_splits)
    from True Cons.prems(2) have q: "q = []" by (cases q) auto
    from c' q show ?thesis by simp
  next
    case False
    with Cons.prems(1) obtain v where nn: "\<not> nullish c"
      and v: "js_delete ks (own_prop c k) = Inr v" and c': "c' = put_prop c k v"
      by (auto simp: js_delete_Cons split: if_splits sum.splits)
    show ?thesis
    proof (cases q)
      case Nil
      then show ?thesis by (simp add: c')
    next
      case (Cons k' qs)
      with Cons.prems(2) have kk: "k' = k" and sp: "strict_prefix qs ks" by auto
      show ?thesis
      proof (cases "is_container c")
        case True
        with Cons.IH[OF v sp] show ?thesis
          by (simp add: Cons kk c' peek_Cons own_prop_put_prop del: peek.simps(2))
      next
        case False
        then have "c' = c" using c' by (cases c) auto
        then show ?thesis by simp
      qed
    qed
  qed
qed

lemma delete_hit:
  "js_delete p c = Inr c' \<Longrightarrow> p \<noteq> [] \<Longrightarrow> settable p c \<Longrightarrow> peek p c' = JUndef"
proof (induction p arbitrary: c c')
  case Nil
  then show ?case by simp
next
  case (Cons k ks)
  from Cons.prems(3) have ic: "is_container c" and st: "settable ks (own_prop c k)" by auto
  show ?case
  proof (cases "ks = []")
    case True
    with Cons.prems have c': "c' = del_prop c k" by (auto split: if_splits)
    with ic True show ?thesis by (simp add: peek_Cons own_prop_del_prop del: peek.simps(2))
  next
    case False
    with Cons.prems(1) obtain v where nn: "\<not> nullish c"
      and v: "js_delete ks (own_prop c k) = Inr v" and c': "c' = put_prop c k v"
      by (auto simp: js_delete_Cons split: if_splits sum.splits)
    from Cons.IH[OF v False st] ic show ?thesis
      by (simp add: c' peek_Cons own_prop_put_prop del: peek.simps(2))
  qed
qed

lemma delete_ok: "settable p c \<Longrightarrow> \<exists>c'. js_delete p c = Inr c'"
proof (induction p arbitrary: c)
  case Nil
  then show ?case by simp
next
  case (Cons k ks)
  then have ic: "is_container c" and st: "settable ks (own_prop c k)" by auto
  have nn: "\<not> nullish c" using ic by (cases c) auto
  show ?case
  proof (cases "ks = []")
    case True
    with nn show ?thesis by simp
  next
    case False
    from Cons.IH[OF st] obtain v where "js_delete ks (own_prop c k) = Inr v" by blast
    with nn False show ?thesis by (simp add: js_delete_Cons)
  qed
qed

lemma container_prefix:
  assumes "is_container (peek q c)" "prefix r q"
  shows "is_container (peek r c)"
proof -
  from assms(2) obtain t where q: "q = r @ t" by (auto simp: prefix_def)
  show ?thesis
  proof (rule ccontr)
    assume n: "\<not> is_container (peek r c)"
    have "peek t (peek r c) = (if t = [] then peek r c else JUndef)"
      using n by (cases t; cases "peek r c") auto
    with assms(1) n show False by (auto simp: q peek_append split: if_splits)
  qed
qed

lemma is_obj_not_nullish: "is_obj c \<Longrightarrow> \<not> nullish c"
  by (cases c) auto

lemma is_obj_container: "is_obj v \<Longrightarrow> is_container v"
  by (cases v) auto

lemma settable_butlast:
  assumes "p \<noteq> []" "is_obj (peek (butlast p) c)"
  shows "settable p c"
  unfolding settable_iff
proof (intro allI impI)
  fix q assume "strict_prefix q p"
  then have "prefix q (butlast p)" using assms(1)
    by (metis append_butlast_last_id prefix_snoc strict_prefix_def)
  with assms(2) show "is_container (peek q c)"
    by (meson container_prefix is_obj_container)
qed

lemma step_assign:
  assumes sh: "shape S F V c" and p: "p \<noteq> []" and par: "butlast p \<in> set S"
    and S: "list_all (\<lambda>q. \<not> prefix p q) S" and F: "list_all (\<lambda>q. \<not> prefix p q) F"
    and V: "list_all (\<lambda>(q, v). \<not> strict_prefix q p) V"
  shows "\<exists>c'. assign p x c = Inr c' \<and> shape S F ((p, x) # filter (\<lambda>(q, v). \<not> prefix p q) V) c'"
proof -
  from sh par have "is_obj (peek (butlast p) c)" by (auto simp: shape_def objs_def list_all_iff)
  with p have st: "settable p c" by (rule settable_butlast)
  then obtain c' where a: "assign p x c = Inr c'" using settable_ok by blast
  have keep: "peek q c' = peek q c" if "\<not> prefix p q" "\<not> prefix q p" for q
    using assign_frame[OF a that] .
  have above: "is_obj (peek q c') = is_obj (peek q c) \<and> truthy (peek q c') = truthy (peek q c)"
    if "\<not> prefix p q" for q
  proof (cases "prefix q p")
    case True
    with that have "strict_prefix q p" by (auto simp: strict_prefix_def)
    from assign_above[OF a this] show ?thesis by simp
  next
    case False
    with keep[OF that] show ?thesis by simp
  qed
  have "objs S c'" using sh S above by (auto simp: shape_def objs_def list_all_iff)
  moreover have "lax F c'" using sh F above by (auto simp: shape_def lax_def obj_or_falsy_def list_all_iff)
  moreover have "vals ((p, x) # filter (\<lambda>(q, v). \<not> prefix p q) V) c'"
  proof -
    have "peek p c' = x" using assign_hit[OF a st] .
    moreover have "peek q c' = v" if "(q, v) \<in> set V" "\<not> prefix p q" for q v
    proof -
      from V that(1) have "\<not> strict_prefix q p" by (auto simp: list_all_iff)
      with that(2) have "\<not> prefix q p" by (auto simp: strict_prefix_def)
      from keep[OF that(2) this] sh that(1) show ?thesis by (auto simp: shape_def vals_def list_all_iff)
    qed
    ultimately show ?thesis by (auto simp: vals_def list_all_iff)
  qed
  ultimately show ?thesis using a by (auto simp: shape_def)
qed

lemma step_ensure:
  assumes sh: "shape S F V c" and p: "p \<noteq> []" and par: "butlast p \<in> set S"
    and pF: "p \<in> set F" and V: "list_all (\<lambda>(q, v). \<not> prefix q p) V"
  shows "\<exists>c'. ensure p c = Inr c' \<and> shape (p # S) F V c'"
proof -
  from sh par have "is_obj (peek (butlast p) c)" by (auto simp: shape_def objs_def list_all_iff)
  with p have st: "settable p c" by (rule settable_butlast)
  then obtain c' where a: "ensure p c = Inr c'" using ensure_ok by blast
  from sh pF have "obj_or_falsy (peek p c)" by (auto simp: shape_def lax_def list_all_iff)
  from ensure_hit[OF a st this] have hit: "is_obj (peek p c')" .
  have keep: "peek q c' = peek q c" if "\<not> prefix q p" for q
    using ensure_frame[OF a that] .
  have above: "is_obj (peek q c') = is_obj (peek q c) \<and> truthy (peek q c') = truthy (peek q c)"
    if "q \<noteq> p" for q
  proof (cases "prefix q p")
    case True
    with that have "strict_prefix q p" by (auto simp: strict_prefix_def)
    from ensure_above[OF a this] show ?thesis by simp
  next
    case False
    with keep show ?thesis by simp
  qed
  have "is_obj (peek q c')" if "is_obj (peek q c)" for q
    using that hit above[of q] by (cases "q = p") auto
  then have "objs (p # S) c'" using sh hit by (auto simp: shape_def objs_def list_all_iff)
  moreover have "obj_or_falsy (peek q c')" if "obj_or_falsy (peek q c)" for q
    using that hit above[of q] by (cases "q = p") (auto simp: obj_or_falsy_def)
  then have "lax F c'" using sh by (auto simp: shape_def lax_def list_all_iff)
  moreover have "peek q c' = v" if "(q, v) \<in> set V" for q v
  proof -
    from V that have "\<not> prefix q p" by (auto simp: list_all_iff)
    from keep[OF this] sh that show ?thesis by (auto simp: shape_def vals_def list_all_iff)
  qed
  then have "vals V c'" by (auto simp: vals_def list_all_iff)
  ultimately show ?thesis using a by (auto simp: shape_def)
qed

lemma step_delete:
  assumes sh: "shape S F V c" and p: "p \<noteq> []" and st: "settable p c"
    and S: "list_all (\<lambda>q. \<not> prefix p q) S" and F: "list_all (\<lambda>q. \<not> prefix p q) F"
    and V: "list_all (\<lambda>(q, v). \<not> strict_prefix q p) V"
  shows "\<exists>c'. js_delete p c = Inr c' \<and> shape S F ((p, JUndef) # filter (\<lambda>(q, v). \<not> prefix p q) V) c'"
proof -
  from st obtain c' where a: "js_delete p c = Inr c'" using delete_ok by blast
  have keep: "peek q c' = peek q c" if "\<not> prefix p q" "\<not> prefix q p" for q
    using delete_frame[OF a that] .
  have above: "is_obj (peek q c') = is_obj (peek q c) \<and> truthy (peek q c') = truthy (peek q c)"
    if "\<not> prefix p q" for q
  proof (cases "prefix q p")
    case True
    with that have "strict_prefix q p" by (auto simp: strict_prefix_def)
    from delete_above[OF a this] show ?thesis by simp
  next
    case False
    with keep[OF that] show ?thesis by simp
  qed
  have "objs S c'" using sh S above by (auto simp: shape_def objs_def list_all_iff)
  moreover have "lax F c'" using sh F above by (auto simp: shape_def lax_def obj_or_falsy_def list_all_iff)
  moreover have "vals ((p, JUndef) # filter (\<lambda>(q, v). \<not> prefix p q) V) c'"
  proof -
    have "peek p c' = JUndef" using delete_hit[OF a p st] .
    moreover have "peek q c' = v" if "(q, v) \<in> set V" "\<not> prefix p q" for q v
    proof -
      from V that(1) have "\<not> strict_prefix q p" by (auto simp: list_all_iff)
      with that(2) have "\<not> prefix q p" by (auto simp: strict_prefix_def)
      from keep[OF that(2) this] sh that(1) show ?thesis by (auto simp: shape_def vals_def list_all_iff)
    qed
    ultimately show ?thesis by (auto simp: vals_def list_all_iff)
  qed
  ultimately show ?thesis using a by (auto simp: shape_def)
qed

lemma shape_weaken:
  "shape S F V c \<Longrightarrow> set S' \<subseteq> set S \<Longrightarrow> set V' \<subseteq> set V \<Longrightarrow> shape S' F V' c"
  by (auto simp: shape_def objs_def vals_def list_all_iff)

lemma run_append: "run (xs @ ys) c = (case run xs c of Inl e \<Rightarrow> Inl e | Inr c' \<Rightarrow> run ys c')"
  by (induction xs arbitrary: c) (auto split: sum.splits)

lemma runs_done: "Q c \<Longrightarrow> runs_to [] Q c"
  by (simp add: runs_to_def)

lemma runs_assign:
  assumes "shape S F V c" "p \<noteq> []" "butlast p \<in> set S"
    "list_all (\<lambda>q. \<not> prefix p q) S" "list_all (\<lambda>q. \<not> prefix p q) F"
    "list_all (\<lambda>(q, v). \<not> strict_prefix q p) V"
    "\<And>c'. shape S F ((p, x) # filter (\<lambda>(q, v). \<not> prefix p q) V) c' \<Longrightarrow> runs_to ss Q c'"
  shows "runs_to (assign p x # ss) Q c"
  using step_assign[OF assms(1-6), of x] assms(7) by (auto simp: runs_to_def)

lemma runs_ensure:
  assumes "shape S F V c" "p \<noteq> []" "butlast p \<in> set S" "p \<in> set F"
    "list_all (\<lambda>(q, v). \<not> prefix q p) V"
    "\<And>c'. shape (p # S) F V c' \<Longrightarrow> runs_to ss Q c'"
  shows "runs_to (ensure p # ss) Q c"
  using step_ensure[OF assms(1-5)] assms(6) by (auto simp: runs_to_def)

lemmas shape_defs = expected_objects_def nested_def gw_objs_def gw_vals_def

lemma stage_gateway:
  assumes "shape nested expected_objects [([''models'', ''providers'', ''anthropic''], a)] c"
  shows "runs_to (gateway_configuration e)
           (shape gw_objs expected_objects (gw_vals @ [([''models'', ''providers'', ''anthropic''], a)])) c"
  using assms unfolding gateway_configuration_def shape_defs
  apply (cases "is_set (CLAWDBOT_GATEWAY_TOKEN e)"; cases "CLAWDBOT_DEV_MODE e = Some ''true''";
      simp add: when_stmt_def)
  apply (((erule runs_assign | erule runs_ensure); simp?)+, rule runs_done, erule shape_weaken, simp, simp)[1]
  apply (((erule runs_assign | erule runs_ensure); simp?)+, rule runs_done, erule shape_weaken, simp, simp)[1]
  apply (((erule runs_assign | erule runs_ensure); simp?)+, rule runs_done, erule shape_weaken, simp, simp)[1]
  apply (((erule runs_assign | erule runs_ensure); simp?)+, rule runs_done, erule shape_weaken, simp, simp)[1]
  done

lemma runs_seq:
  "runs_to xs P c \<Longrightarrow> (\<And>c'. P c' \<Longrightarrow> runs_to ys Q c') \<Longrightarrow> runs_to (xs @ ys) Q c"
  by (auto simp: runs_to_def run_append)

lemma stage_telegram:
  assumes "shape gw_objs expected_objects (mid_vals a) c"
  shows "runs_to
     (when_stmt b
        [ensure [''channels'', ''telegram''],
         assign [''channels'', ''telegram'', ''botToken''] x,
         assign [''channels'', ''telegram'', ''enabled''] (JBool True),
         ensure [''channels'', ''telegram'', ''dm''],
         assign [''channels'', ''telegram'', ''dmPolicy''] y])
     (shape gw_objs expected_objects (mid_vals a)) c"
  using assms unfolding shape_defs mid_vals_def
  apply (cases b; simp add: when_stmt_def)
   apply (((erule runs_assign | erule runs_ensure); simp?)+, rule runs_done, erule shape_weaken, simp, simp)[1]
  apply (rule runs_done, assumption)
  done

lemma stage_discord:
  assumes "shape gw_objs expected_objects (mid_vals a) c"
  shows "runs_to
     (when_stmt b
        [ensure [''channels'', ''discord''],
         assign [''channels'', ''discord'', ''token''] x,
         assign [''channels'', ''discord'', ''enabled''] (JBool True),
         ensure [''channels'', ''discord'', ''dm''],
         assign [''channels'', ''discord'', ''dm'', ''policy''] y])
     (shape gw_objs expected_objects (mid_vals a)) c"
  using assms unfolding shape_defs mid_vals_def
  apply (cases b; simp add: when_stmt_def)
   apply (((erule runs_assign | erule runs_ensure); simp?)+, rule runs_done, erule shape_weaken, simp, simp)[1]
  apply (rule runs_done, assumption)
  done

lemma stage_slack:
  assumes "shape gw_objs expected_objects (mid_vals a) c"
  shows "runs_to
     (when_stmt b
        [ensure [''channels'', ''slack''],
         assign [''channels'', ''slack'', ''botToken''] x,
         assign [''channels'', ''slack'', ''appToken''] y,
         assign [''channels'', ''slack'', ''enabled''] (JBool True)])
     (shape gw_objs expected_objects (mid_vals a)) c"
  using assms unfolding shape_defs mid_vals_def
  apply (cases b; simp add: when_stmt_def)
   apply (((erule runs_assign | erule runs_ensure); simp?)+, rule runs_done, erule shape_weaken, simp, simp)[1]
  apply (rule runs_done, assumption)
  done

lemma stage_channels:
  assumes "shape gw_objs expected_objects (mid_vals a) c"
  shows "runs_to (channel_configuration e) (shape gw_objs expected_objects (mid_vals a)) c"
  unfolding channel_configuration_def
  by (intro runs_seq[OF stage_telegram[OF assms]] runs_seq[OF stage_discord] stage_slack)

lemmas step_defs = shape_defs mid_vals_def prov_objs_def

lemma stage_workers_ai:
  assumes "shape gw_objs expected_objects (mid_vals a) c"
  shows "runs_to (workers_ai_branch e)
     (shape (prov_objs @ gw_objs) expected_objects
        ([([''agents'', ''defaults'', ''model'', ''primary''], JStr ''openai/llama-3.1-8b-instruct''),
          ([''models'', ''providers'', ''openai''], workers_ai_provider e)] @ mid_vals a)) c"
  using assms unfolding workers_ai_branch_def step_defs
  apply simp
  apply (((erule runs_assign | erule runs_ensure); simp?)+, rule runs_done, erule shape_weaken, simp, simp)[1]
  done

lemma stage_groq:
  assumes "shape ([[''models'', ''providers''], [''models'']] @ gw_objs) expected_objects (mid_vals a) c"
  shows "runs_to (groq_branch e)
     (shape (prov_objs @ gw_objs) expected_objects
        ([([''agents'', ''defaults'', ''model'', ''primary''],
           JStr (if is_set (MISTRAL_API_KEY e) then ''mistral/mistral-small-latest''
                 else ''openai/llama-3.3-70b-versatile'')),
          ([''models'', ''providers'', ''openai''], groq_provider e)] @ mid_vals a)) c"
  using assms unfolding groq_branch_def step_defs
  apply (cases "is_set (MISTRAL_API_KEY e)"; simp add: when_stmt_def)
   apply (((erule runs_assign | erule runs_ensure); simp?)+, rule runs_done, erule shape_weaken, simp, simp)[1]
  apply (((erule runs_assign | erule runs_ensure); simp?)+, rule runs_done, erule shape_weaken, simp, simp)[1]
  done

lemma stage_generic_openai:
  assumes "shape ([[''models'', ''providers''], [''models'']] @ gw_objs) expected_objects (mid_vals a) c"
  shows "runs_to (generic_openai_branch e)
     (shape (prov_objs @ gw_objs) expected_objects
        ([([''agents'', ''defaults'', ''model'', ''primary''], JStr ''openai/gpt-5.2''),
          ([''models'', ''providers'', ''openai''], generic_openai_provider e)] @ mid_vals a)) c"
  using assms unfolding generic_openai_branch_def step_defs
  apply simp
  apply (((erule runs_assign | erule runs_ensure); simp?)+, rule runs_done, erule shape_weaken, simp, simp)[1]
  done

lemma stage_openai_prefix:
  assumes "shape gw_objs expected_objects (mid_vals a) c"
  shows "runs_to [ensure [''models''], ensure [''models'', ''providers'']]
     (shape ([[''models'', ''providers''], [''models'']] @ gw_objs) expected_objects (mid_vals a)) c"
  using assms unfolding step_defs
  apply simp
  apply (((erule runs_assign | erule runs_ensure); simp?)+, rule runs_done, assumption)[1]
  done

lemma stage_openai:
  assumes "shape gw_objs expected_objects (mid_vals a) c"
  shows "runs_to (openai_branch e)
     (shape (prov_objs @ gw_objs) expected_objects
        ([([''agents'', ''defaults'', ''model'', ''primary''],
           JStr (if isGroq e
                 then (if is_set (MISTRAL_API_KEY e) then ''mistral/mistral-small-latest''
                       else ''openai/llama-3.3-70b-versatile'')
                 else ''openai/gpt-5.2'')),
          ([''models'', ''providers'', ''openai''],
           if isGroq e then groq_provider e else generic_openai_provider e)] @ mid_vals a)) c"
  unfolding openai_branch_def
  apply (rule runs_seq[OF stage_openai_prefix[OF assms]])
  apply (cases "isGroq e")
   apply (simp only: if_True, erule stage_groq)
  apply (simp only: if_False, erule stage_generic_openai)
  done

lemma stage_anthropic_baseurl:
  assumes "shape gw_objs expected_objects (mid_vals a) c"
  shows "runs_to (anthropic_baseurl_branch e)
     (shape (prov_objs @ gw_objs) expected_objects
        ([([''agents'', ''defaults'', ''model'', ''primary''], JStr ''anthropic/claude-opus-4-5-20251101''),
          ([''models'', ''providers'', ''anthropic''], anthropic_baseurl_provider e)] @ gw_vals)) c"
  using assms unfolding anthropic_baseurl_branch_def step_defs
  apply simp
  apply (((erule runs_assign | erule runs_ensure); simp?)+, rule runs_done, erule shape_weaken, simp, simp)[1]
  done

lemma stage_anthropic_direct:
  assumes "shape gw_objs expected_objects (mid_vals a) c"
  shows "runs_to (anthropic_direct_branch e)
     (shape (prov_objs @ gw_objs) expected_objects
        ([([''agents'', ''defaults'', ''model'', ''primary''], JStr ''anthropic/claude-3-5-sonnet-latest''),
          ([''models'', ''providers'', ''anthropic''], anthropic_direct_provider e)] @ gw_vals)) c"
  using assms unfolding anthropic_direct_branch_def step_defs
  apply simp
  apply (((erule runs_assign | erule runs_ensure); simp?)+, rule runs_done, erule shape_weaken, simp, simp)[1]
  done

lemma stage_default:
  assumes "shape gw_objs expected_objects (mid_vals a) c"
  shows "runs_to default_branch
     (shape gw_objs expected_objects
        ([([''agents'', ''defaults'', ''model'', ''primary''], JStr ''anthropic/claude-opus-4-5'')]
         @ mid_vals a)) c"
  using assms unfolding default_branch_def step_defs
  apply simp
  apply (((erule runs_assign | erule runs_ensure); simp?)+, rule runs_done, erule shape_weaken, simp, simp)[1]
  done

lemma stage_provider:
  assumes "shape gw_objs expected_objects (mid_vals a) c"
  shows "runs_to (provider_configuration e) (shape (final_objs e) expected_objects (final_vals e a)) c"
proof -
  consider (w) "isWorkersAI e"
    | (o) "\<not> isWorkersAI e" "isOpenAI e"
    | (b) "\<not> isWorkersAI e" "\<not> isOpenAI e" "baseUrl e \<noteq> []"
    | (k) "\<not> isWorkersAI e" "\<not> isOpenAI e" "baseUrl e = []" "is_set (ANTHROPIC_API_KEY e)"
    | (d) "\<not> isWorkersAI e" "\<not> isOpenAI e" "baseUrl e = []" "\<not> is_set (ANTHROPIC_API_KEY e)"
    by blast
  then show ?thesis
  proof cases
    case w
    with stage_workers_ai[OF assms, of e] show ?thesis
      by (simp add: provider_configuration_def final_objs_def final_vals_def primary_model_def)
  next
    case o
    with stage_openai[OF assms, of e] show ?thesis
      by (simp add: provider_configuration_def final_objs_def final_vals_def primary_model_def)
  next
    case b
    with stage_anthropic_baseurl[OF assms, of e] show ?thesis
      by (simp add: provider_configuration_def final_objs_def final_vals_def primary_model_def)
  next
    case k
    with stage_anthropic_direct[OF assms, of e] show ?thesis
      by (simp add: provider_configuration_def final_objs_def final_vals_def primary_model_def)
  next
    case d
    with stage_default[OF assms] show ?thesis
      by (simp add: provider_configuration_def final_objs_def final_vals_def primary_model_def)
  qed
qed

lemma stage_nested2:
  assumes "shape [[]] expected_objects
             [([''models'', ''providers'', ''anthropic'', ''models''], ms),
              ([''models'', ''providers'', ''anthropic''], a)] c"
  shows "runs_to ensure_nested_objects
           (shape nested expected_objects
             [([''models'', ''providers'', ''anthropic'', ''models''], ms),
              ([''models'', ''providers'', ''anthropic''], a)]) c"
  using assms unfolding ensure_nested_objects_def shape_defs
  apply -
  apply (((erule runs_assign | erule runs_ensure); simp?)+, rule runs_done, assumption)[1]
  done

lemma peek_defined_settable: "peek p c \<noteq> JUndef \<Longrightarrow> settable p c"
proof (induction p arbitrary: c)
  case Nil
  then show ?case by simp
next
  case (Cons k ks)
  then have nn: "\<not> nullish c" and pk: "peek ks (own_prop c k) \<noteq> JUndef"
    by (auto split: if_splits)
  from pk have "own_prop c k \<noteq> JUndef" by auto
  then have "is_container c" by (cases c) auto
  with Cons.IH[OF pk] show ?case by simp
qed

lemma settable_append: "settable (p @ r) c \<Longrightarrow> settable p c"
  by (induction p arbitrary: c) auto

lemma some_unnamed_iff:
  "some_unnamed es = Inr True \<longleftrightarrow>
     (\<exists>i<length es. \<not> truthy (own_prop (es ! i) ''name'') \<and> (\<forall>j\<le>i. \<not> nullish (es ! j)))"
proof (induction es)
  case Nil
  then show ?case by simp
next
  case (Cons m ms)
  show ?case
  proof (cases "nullish m")
    case True
    then have "\<not> (\<exists>i<length (m # ms). \<not> truthy (own_prop ((m # ms) ! i) ''name'')
                  \<and> (\<forall>j\<le>i. \<not> nullish ((m # ms) ! j)))"
      by (metis le0 nth_Cons_0)
    with True show ?thesis by simp
  next
    case nn: False
    show ?thesis
    proof (cases "truthy (own_prop m ''name'')")
      case False
      with nn have "\<not> truthy (own_prop ((m # ms) ! 0) ''name'') \<and> (\<forall>j\<le>0. \<not> nullish ((m # ms) ! j))"
        by simp
      then have "\<exists>i<length (m # ms). \<not> truthy (own_prop ((m # ms) ! i) ''name'')
                  \<and> (\<forall>j\<le>i. \<not> nullish ((m # ms) ! j))"
        by (metis length_greater_0_conv list.distinct(1))
      with nn False show ?thesis by simp
    next
      case t: True
      have "(\<exists>i<length (m # ms). \<not> truthy (own_prop ((m # ms) ! i) ''name'')
                  \<and> (\<forall>j\<le>i. \<not> nullish ((m # ms) ! j)))
            \<longleftrightarrow> (\<exists>i<length ms. \<not> truthy (own_prop (ms ! i) ''name'')
                  \<and> (\<forall>j\<le>i. \<not> nullish (ms ! j)))" (is "?L \<longleftrightarrow> ?R")
      proof
        assume ?L
        then obtain i where i: "i < length (m # ms)" "\<not> truthy (own_prop ((m # ms) ! i) ''name'')"
          "\<forall>j\<le>i. \<not> nullish ((m # ms) ! j)" by blast
        with t obtain i' where i': "i = Suc i'" by (cases i) auto
        with i have "i' < length ms" "\<not> truthy (own_prop (ms ! i') ''name'')" by auto
        moreover have "\<not> nullish (ms ! j)" if "j \<le> i'" for j
          using i(3)[rule_format, of "Suc j"] that i' by simp
        ultimately show ?R by blast
      next
        assume ?R
        then obtain i where i: "i < length ms" "\<not> truthy (own_prop (ms ! i) ''name'')"
          "\<forall>j\<le>i. \<not> nullish (ms ! j)" by blast
        have "\<not> nullish ((m # ms) ! j)" if "j \<le> Suc i" for j
          using that i(3) nn by (cases j) auto
        with i(1,2) show ?L by (intro exI[of _ "Suc i"]) auto
      qed
      with nn t Cons.IH show ?thesis by simp
    qed
  qed
qed

lemma hasInvalidModels_truthy: "hasInvalidModels ms = Inr b \<Longrightarrow> truthy ms"
  by (cases ms) auto

lemma js_error_unique: "(x::js_error) = TypeError"
  by (cases x) simp

lemma stage_cleanup:
  assumes sh: "shape nested expected_objects
             [([''models'', ''providers'', ''anthropic'', ''models''], ms),
              ([''models'', ''providers'', ''anthropic''], a)] c"
    and ok: "anthropic_models_ok ms"
  shows "\<exists>c'. cleanup_anthropic c = Inr c'
           \<and> shape nested expected_objects
                [([''models'', ''providers'', ''anthropic''], after_cleanup ms a)] c'"
proof -
  from sh have root: "is_obj c" and ms: "peek [''models'', ''providers'', ''anthropic'', ''models''] c = ms"
    by (auto simp: shape_def objs_def vals_def nested_def)
  from root have nn: "\<not> nullish c" by (cases c) auto
  have weak: "shape nested expected_objects [([''models'', ''providers'', ''anthropic''], a)] c"
    using sh by (rule shape_weaken) auto
  show ?thesis
  proof (cases "hasInvalidModels ms = Inr True")
    case True
    then have "ms \<noteq> JUndef" by auto
    with ms have "settable ([''models'', ''providers'', ''anthropic''] @ [''models'']) c"
      by (intro peek_defined_settable) simp
    then have st: "settable [''models'', ''providers'', ''anthropic''] c"
      by (rule settable_append)
    have del: "\<exists>c'. js_delete [''models'', ''providers'', ''anthropic''] c = Inr c'
        \<and> shape nested expected_objects
             (([''models'', ''providers'', ''anthropic''], JUndef) #
              filter (\<lambda>(q, v). \<not> prefix [''models'', ''providers'', ''anthropic''] q)
                [([''models'', ''providers'', ''anthropic'', ''models''], ms),
                 ([''models'', ''providers'', ''anthropic''], a)]) c'"
      by (rule step_delete[OF sh _ st]) (simp_all add: shape_defs)
    have "cleanup_anthropic c = js_delete [''models'', ''providers'', ''anthropic''] c"
      using True nn ms hasInvalidModels_truthy[OF True]
      by (simp add: cleanup_anthropic_def del: peek.simps js_delete.simps)
    with del True show ?thesis by (simp add: after_cleanup_def)
  next
    case False
    have "cleanup_anthropic c = Inr c"
    proof (cases "truthy ms")
      case t: True
      with ok False obtain b where "hasInvalidModels ms = Inr b" "\<not> b"
        using js_error_unique by (cases "hasInvalidModels ms") (auto simp: anthropic_models_ok_def)
      with nn ms t show ?thesis by (simp add: cleanup_anthropic_def del: peek.simps)
    next
      case f: False
      with nn ms show ?thesis by (simp add: cleanup_anthropic_def del: peek.simps)
    qed
    with weak False show ?thesis by (simp add: after_cleanup_def)
  qed
qed

lemma runs_Cons:
  "\<exists>c'. s c = Inr c' \<and> P c' \<Longrightarrow> (\<And>c'. P c' \<Longrightarrow> runs_to ss Q c') \<Longrightarrow> runs_to (s # ss) Q c"
  by (auto simp: runs_to_def)

lemma script_runs:
  assumes "well_shaped c"
  shows "runs_to (script e)
           (shape (final_objs e) expected_objects (final_vals e (persisted_anthropic c))) c"
proof -
  let ?ms = "peek [''models'', ''providers'', ''anthropic'', ''models''] c"
  let ?a = "peek [''models'', ''providers'', ''anthropic''] c"
  from assms have s0: "shape [[]] expected_objects
       [([''models'', ''providers'', ''anthropic'', ''models''], ?ms),
        ([''models'', ''providers'', ''anthropic''], ?a)] c"
    by (simp add: well_shaped_def shape_def objs_def vals_def del: peek.simps(2))
  from assms have ok: "anthropic_models_ok ?ms" by (simp add: well_shaped_def)
  have rest: "runs_to (gateway_configuration e @ channel_configuration e @ provider_configuration e)
                (shape (final_objs e) expected_objects (final_vals e (persisted_anthropic c))) c'"
    if "shape nested expected_objects
          [([''models'', ''providers'', ''anthropic''], persisted_anthropic c)] c'" for c'
    by (intro runs_seq[OF stage_gateway[OF that]] runs_seq[OF stage_channels] stage_provider)
       (simp_all add: mid_vals_def)
  show ?thesis
    unfolding script_def
    apply (rule runs_seq[OF stage_nested2[OF s0]])
    apply (simp only: append_Cons append_Nil)
    apply (rule runs_Cons)
     apply (drule stage_cleanup[OF _ ok])
     apply (simp only: persisted_anthropic_def[symmetric])
    apply (erule rest)
    done
qed


subsection \<open>What a completed run guarantees\<close>

lemma frame_assign:
  assumes a: "assign p x c = Inr c'" and sh: "shape S F V c"
    and S: "list_all (\<lambda>q. \<not> prefix p q) S" and F: "list_all (\<lambda>q. \<not> prefix p q) F"
    and V: "list_all (\<lambda>(q, v). \<not> prefix p q \<and> \<not> prefix q p) V"
  shows "shape S F V c'"
proof -
  have above: "is_obj (peek q c') = is_obj (peek q c) \<and> truthy (peek q c') = truthy (peek q c)"
    if "\<not> prefix p q" for q
  proof (cases "prefix q p")
    case True
    with that have "strict_prefix q p" by (auto simp: strict_prefix_def)
    from assign_above[OF a this] show ?thesis by simp
  next
    case False
    with assign_frame[OF a that] show ?thesis by simp
  qed
  have "objs S c'" using sh S above by (auto simp: shape_def objs_def list_all_iff)
  moreover have "lax F c'" using sh F above by (auto simp: shape_def lax_def obj_or_falsy_def list_all_iff)
  moreover have "peek q c' = v" if "(q, v) \<in> set V" for q v
  proof -
    from V that have "\<not> prefix p q" "\<not> prefix q p" by (auto simp: list_all_iff)
    from assign_frame[OF a this] sh that show ?thesis by (auto simp: shape_def vals_def list_all_iff)
  qed
  then have "vals V c'" by (auto simp: vals_def list_all_iff)
  ultimately show ?thesis by (simp add: shape_def)
qed

lemma is_obj_truthy: "is_obj v \<Longrightarrow> truthy v"
  by (cases v) auto

lemma ensure_keeps_obj:
  assumes a: "ensure p c = Inr c'" and o: "is_obj (peek q c)"
  shows "is_obj (peek q c')"
proof (cases "prefix q p")
  case True
  show ?thesis
  proof (cases "q = p")
    case e: True
    from a obtain v where g: "js_get p c = Inr v" by (auto simp: ensure_unfold split: sum.splits)
    then have "v = peek p c" by (rule js_get_peek)
    with o e have "truthy v" by (simp add: is_obj_truthy)
    with a g have "c' = c" by (simp add: ensure_unfold)
    with o show ?thesis by simp
  next
    case False
    with True have "strict_prefix q p" by (auto simp: strict_prefix_def)
    from ensure_above[OF a this] o show ?thesis by simp
  qed
next
  case False
  from ensure_frame[OF a False] o show ?thesis by simp
qed

lemma ensure_keeps_lax:
  assumes a: "ensure p c = Inr c'" and o: "obj_or_falsy (peek q c)"
  shows "obj_or_falsy (peek q c')"
proof (cases "prefix q p")
  case True
  show ?thesis
  proof (cases "q = p")
    case e: True
    from a obtain v where g: "js_get p c = Inr v" by (auto simp: ensure_unfold split: sum.splits)
    then have v: "v = peek p c" by (rule js_get_peek)
    show ?thesis
    proof (cases "truthy v")
      case t: True
      with a g have "c' = c" by (simp add: ensure_unfold)
      with o show ?thesis by simp
    next
      case f: False
      with a g have as: "assign p (JObj []) c = Inr c'" by (simp add: ensure_unfold)
      show ?thesis
      proof (cases "settable p c")
        case True
        from assign_hit[OF as True] e show ?thesis by (simp add: obj_or_falsy_def)
      next
        case False
        from not_settable_same[OF as False] o show ?thesis by simp
      qed
    qed
  next
    case False
    with True have "strict_prefix q p" by (auto simp: strict_prefix_def)
    from ensure_above[OF a this] o show ?thesis by (simp add: obj_or_falsy_def)
  qed
next
  case False
  from ensure_frame[OF a False] o show ?thesis by simp
qed

lemma frame_ensure:
  assumes a: "ensure p c = Inr c'" and sh: "shape S F V c"
    and V: "list_all (\<lambda>(q, v). \<not> prefix q p) V"
  shows "shape S F V c'"
proof -
  have "objs S c'" using sh ensure_keeps_obj[OF a] by (auto simp: shape_def objs_def list_all_iff)
  moreover have "lax F c'" using sh ensure_keeps_lax[OF a] by (auto simp: shape_def lax_def list_all_iff)
  moreover have "peek q c' = v" if "(q, v) \<in> set V" for q v
  proof -
    from V that have "\<not> prefix q p" by (auto simp: list_all_iff)
    from ensure_frame[OF a this] sh that show ?thesis by (auto simp: shape_def vals_def list_all_iff)
  qed
  then have "vals V c'" by (auto simp: vals_def list_all_iff)
  ultimately show ?thesis by (simp add: shape_def)
qed

lemma frame_delete:
  assumes a: "js_delete p c = Inr c'" and sh: "shape S F V c"
    and S: "list_all (\<lambda>q. \<not> prefix p q) S" and F: "list_all (\<lambda>q. \<not> prefix p q) F"
    and V: "list_all (\<lambda>(q, v). \<not> prefix p q \<and> \<not> prefix q p) V"
  shows "shape S F V c'"
proof -
  have above: "is_obj (peek q c') = is_obj (peek q c) \<and> truthy (peek q c') = truthy (peek q c)"
    if "\<not> prefix p q" for q
  proof (cases "prefix q p")
    case True
    with that have "strict_prefix q p" by (auto simp: strict_prefix_def)
    from delete_above[OF a this] show ?thesis by simp
  next
    case False
    with delete_frame[OF a that] show ?thesis by simp
  qed
  have "objs S c'" using sh S above by (auto simp: shape_def objs_def list_all_iff)
  moreover have "lax F c'" using sh F above by (auto simp: shape_def lax_def obj_or_falsy_def list_all_iff)
  moreover have "peek q c' = v" if "(q, v) \<in> set V" for q v
  proof -
    from V that have "\<not> prefix p q" "\<not> prefix q p" by (auto simp: list_all_iff)
    from delete_frame[OF a this] sh that show ?thesis by (auto simp: shape_def vals_def list_all_iff)
  qed
  then have "vals V c'" by (auto simp: vals_def list_all_iff)
  ultimately show ?thesis by (simp add: shape_def)
qed

lemma cleanup_cases:
  assumes "cleanup_anthropic c = Inr c'"
  shows "c' = c \<or> js_delete [''models'', ''providers'', ''anthropic''] c = Inr c'"
  using assms by (auto simp: cleanup_anthropic_def split: if_splits sum.splits)

lemma frame_cleanup:
  assumes a: "cleanup_anthropic c = Inr c'" and sh: "shape S F V c"
    and S: "list_all (\<lambda>q. \<not> prefix [''models'', ''providers'', ''anthropic''] q) S"
    and F: "list_all (\<lambda>q. \<not> prefix [''models'', ''providers'', ''anthropic''] q) F"
    and V: "list_all (\<lambda>(q, v). \<not> prefix [''models'', ''providers'', ''anthropic''] q
                             \<and> \<not> prefix q [''models'', ''providers'', ''anthropic'']) V"
  shows "shape S F V c'"
  using cleanup_cases[OF a] frame_delete[OF _ sh S F V] sh by auto

lemma inert_assign:
  "list_all (\<lambda>q. \<not> prefix p q) S \<Longrightarrow> list_all (\<lambda>q. \<not> prefix p q) F \<Longrightarrow>
   list_all (\<lambda>(q, v). \<not> prefix p q \<and> \<not> prefix q p) V \<Longrightarrow> inert S F V (assign p x)"
  unfolding inert_def using frame_assign by blast

lemma inert_ensure:
  "list_all (\<lambda>(q, v). \<not> prefix q p) V \<Longrightarrow> inert S F V (ensure p)"
  unfolding inert_def using frame_ensure by blast

lemma inert_cleanup:
  "list_all (\<lambda>q. \<not> prefix [''models'', ''providers'', ''anthropic''] q) S \<Longrightarrow>
   list_all (\<lambda>q. \<not> prefix [''models'', ''providers'', ''anthropic''] q) F \<Longrightarrow>
   list_all (\<lambda>(q, v). \<not> prefix [''models'', ''providers'', ''anthropic''] q
                     \<and> \<not> prefix q [''models'', ''providers'', ''anthropic'']) V \<Longrightarrow>
   inert S F V cleanup_anthropic"
  unfolding inert_def using frame_cleanup by blast

lemma run_inert:
  "list_all (inert S F V) ss \<Longrightarrow> shape S F V c \<Longrightarrow> run ss c = Inr c' \<Longrightarrow> shape S F V c'"
proof (induction ss arbitrary: c)
  case Nil
  then show ?case by simp
next
  case (Cons s ss)
  from Cons.prems(3) obtain c1 where 1: "s c = Inr c1" and 2: "run ss c1 = Inr c'"
    by (auto split: sum.splits)
  from Cons.prems(1) have "inert S F V s" "list_all (inert S F V) ss" by auto
  with Cons.prems(2) 1 have "shape S F V c1" by (auto simp: inert_def)
  with Cons.IH \<open>list_all (inert S F V) ss\<close> 2 show ?case by blast
qed

lemma hit_assign:
  assumes "assign p x c = Inr c'" "shape S F V c" "p \<noteq> []" "butlast p \<in> set S"
    "list_all (\<lambda>q. \<not> prefix p q) S" "list_all (\<lambda>q. \<not> prefix p q) F"
    "list_all (\<lambda>(q, v). \<not> strict_prefix q p) V"
  shows "shape S F ((p, x) # filter (\<lambda>(q, v). \<not> prefix p q) V) c'"
  using step_assign[OF assms(2-7), of x] assms(1) by auto

lemma hit_ensure:
  assumes "ensure p c = Inr c'" "shape S F V c" "p \<noteq> []" "butlast p \<in> set S" "p \<in> set F"
    "list_all (\<lambda>(q, v). \<not> prefix q p) V"
  shows "shape (p # S) F V c'"
  using step_ensure[OF assms(2-6)] assms(1) by auto

lemma run_appendD:
  "run (xs @ ys) c = Inr c' \<Longrightarrow> \<exists>c1. run xs c = Inr c1 \<and> run ys c1 = Inr c'"
  by (auto simp: run_append split: sum.splits)

lemma run_ConsD:
  "run (s # ss) c = Inr c' \<Longrightarrow> \<exists>c1. s c = Inr c1 \<and> run ss c1 = Inr c'"
  by (auto split: sum.splits)

lemma list_all_when [simp]: "list_all P (when_stmt b ss) = (b \<longrightarrow> list_all P ss)"
  by (simp add: when_stmt_def)

lemma ends_done: "Q c \<Longrightarrow> ends_in [] Q c"
  by (simp add: ends_in_def)

lemma ends_inert:
  "shape S F V c \<Longrightarrow> inert S F V s \<Longrightarrow> (\<And>c'. shape S F V c' \<Longrightarrow> ends_in ss Q c') \<Longrightarrow>
   ends_in (s # ss) Q c"
  by (auto simp: ends_in_def inert_def split: sum.splits)

lemma ends_hit_assign:
  assumes "shape S F V c" "p \<noteq> []" "butlast p \<in> set S"
    "list_all (\<lambda>q. \<not> prefix p q) S" "list_all (\<lambda>q. \<not> prefix p q) F"
    "list_all (\<lambda>(q, v). \<not> strict_prefix q p) V"
    "\<And>c'. shape S F ((p, x) # filter (\<lambda>(q, v). \<not> prefix p q) V) c' \<Longrightarrow> ends_in ss Q c'"
  shows "ends_in (assign p x # ss) Q c"
  using hit_assign[OF _ assms(1-6)] assms(7) by (auto simp: ends_in_def split: sum.splits)

lemma ends_hit_ensure:
  assumes "shape S F V c" "p \<noteq> []" "butlast p \<in> set S" "p \<in> set F"
    "list_all (\<lambda>(q, v). \<not> prefix q p) V"
    "\<And>c'. shape (p # S) F V c' \<Longrightarrow> ends_in ss Q c'"
  shows "ends_in (ensure p # ss) Q c"
  using hit_ensure[OF _ assms(1-5)] assms(6) by (auto simp: ends_in_def split: sum.splits)

lemma ends_rest:
  "shape S F V c \<Longrightarrow> list_all (inert S F V) ss \<Longrightarrow> ends_in ss (shape S F V) c"
  using run_inert by (auto simp: ends_in_def)

lemmas branch_defs =
  workers_ai_branch_def openai_branch_def groq_branch_def generic_openai_branch_def
  anthropic_baseurl_branch_def anthropic_direct_branch_def default_branch_def

lemma gateway_when_completes:
  assumes "shape [[]] gateway_chain [] c"
  shows "ends_in (script e)
           (shape [[''gateway'', ''http'', ''endpoints''], [''gateway'', ''http''], [''gateway''], []]
                  gateway_chain gw_vals) c"
  using assms
  unfolding script_def ensure_nested_objects_def gateway_configuration_def gateway_chain_def gw_vals_def
  apply simp
  apply (erule ends_inert, rule inert_ensure, simp)
  apply (erule ends_inert, rule inert_ensure, simp)
  apply (erule ends_inert, rule inert_ensure, simp)
  apply (erule ends_hit_ensure; simp?)
  apply (erule ends_inert, rule inert_ensure, simp)
  apply (erule ends_inert, rule inert_cleanup, simp, simp, simp)
  apply (erule ends_hit_assign; simp?)
  apply (erule ends_hit_assign; simp?)
  apply (erule ends_hit_assign; simp?)
  apply (erule ends_hit_ensure; simp?)
  apply (erule ends_hit_ensure; simp?)
  apply (erule ends_hit_assign; simp?)
  apply (erule ends_rest)
  apply (simp add: channel_configuration_def provider_configuration_def branch_defs
           inert_assign inert_ensure)
  done

lemma ends_seq:
  "ends_in xs P c \<Longrightarrow> (\<And>c'. P c' \<Longrightarrow> ends_in ys Q c') \<Longrightarrow> ends_in (xs @ ys) Q c"
  by (auto simp: ends_in_def run_append split: sum.splits)

lemma provider_primary:
  assumes "shape model_objs model_chain [] c"
  shows "ends_in (provider_configuration e)
           (shape model_objs model_chain
              [([''agents'', ''defaults'', ''model'', ''primary''], JStr (primary_model e))]) c"
proof -
  consider (w) "isWorkersAI e"
    | (g1) "\<not> isWorkersAI e" "isOpenAI e" "isGroq e" "is_set (MISTRAL_API_KEY e)"
    | (g2) "\<not> isWorkersAI e" "isOpenAI e" "isGroq e" "\<not> is_set (MISTRAL_API_KEY e)"
    | (o) "\<not> isWorkersAI e" "isOpenAI e" "\<not> isGroq e"
    | (b) "\<not> isWorkersAI e" "\<not> isOpenAI e" "baseUrl e \<noteq> []"
    | (k) "\<not> isWorkersAI e" "\<not> isOpenAI e" "baseUrl e = []" "is_set (ANTHROPIC_API_KEY e)"
    | (d) "\<not> isWorkersAI e" "\<not> isOpenAI e" "baseUrl e = []" "\<not> is_set (ANTHROPIC_API_KEY e)"
    by blast
  then show ?thesis
  proof cases
    case w
    with assms show ?thesis
      unfolding model_objs_def model_chain_def
      apply (simp add: provider_configuration_def primary_model_def branch_defs)
      apply ((erule ends_hit_assign[where p = "[''agents'', ''defaults'', ''model'', ''primary'']"]; simp?)
             | (erule ends_inert, (rule inert_assign | rule inert_ensure); simp?))+
      apply (rule ends_done, assumption)
      done
  next
    case g1
    with assms show ?thesis
      unfolding model_objs_def model_chain_def
      apply (simp add: provider_configuration_def primary_model_def branch_defs when_stmt_def)
      apply ((erule ends_hit_assign[where p = "[''agents'', ''defaults'', ''model'', ''primary'']"]; simp?)
             | (erule ends_inert, (rule inert_assign | rule inert_ensure); simp?))+
      apply (rule ends_done, assumption)
      done
  next
    case g2
    with assms show ?thesis
      unfolding model_objs_def model_chain_def
      apply (simp add: provider_configuration_def primary_model_def branch_defs when_stmt_def)
      apply ((erule ends_hit_assign[where p = "[''agents'', ''defaults'', ''model'', ''primary'']"]; simp?)
             | (erule ends_inert, (rule inert_assign | rule inert_ensure); simp?))+
      apply (rule ends_done, assumption)
      done
  next
    case o
    with assms show ?thesis
      unfolding model_objs_def model_chain_def
      apply (simp add: provider_configuration_def primary_model_def branch_defs)
      apply ((erule ends_hit_assign[where p = "[''agents'', ''defaults'', ''model'', ''primary'']"]; simp?)
             | (erule ends_inert, (rule inert_assign | rule inert_ensure); simp?))+
      apply (rule ends_done, assumption)
      done
  next
    case b
    with assms show ?thesis
      unfolding model_objs_def model_chain_def
      apply (simp add: provider_configuration_def primary_model_def branch_defs)
      apply ((erule ends_hit_assign[where p = "[''agents'', ''defaults'', ''model'', ''primary'']"]; simp?)
             | (erule ends_inert, (rule inert_assign | rule inert_ensure); simp?))+
      apply (rule ends_done, assumption)
      done
  next
    case k
    with assms show ?thesis
      unfolding model_objs_def model_chain_def
      apply (simp add: provider_configuration_def primary_model_def branch_defs)
      apply ((erule ends_hit_assign[where p = "[''agents'', ''defaults'', ''model'', ''primary'']"]; simp?)
             | (erule ends_inert, (rule inert_assign | rule inert_ensure); simp?))+
      apply (rule ends_done, assumption)
      done
  next
    case d
    with assms show ?thesis
      unfolding model_objs_def model_chain_def
      apply (simp add: provider_configuration_def primary_model_def branch_defs)
      apply ((erule ends_hit_assign[where p = "[''agents'', ''defaults'', ''model'', ''primary'']"]; simp?)
             | (erule ends_inert, (rule inert_assign | rule inert_ensure); simp?))+
      apply (rule ends_done, assumption)
      done
  qed
qed

lemma primary_when_completes:
  assumes "shape [[]] model_chain [] c"
  shows "ends_in (script e)
           (shape model_objs model_chain
              [([''agents'', ''defaults'', ''model'', ''primary''], JStr (primary_model e))]) c"
proof -
  have rest: "ends_in (gateway_configuration e @ channel_configuration e @ provider_configuration e)
           (shape model_objs model_chain
              [([''agents'', ''defaults'', ''model'', ''primary''], JStr (primary_model e))]) c'"
    if "shape model_objs model_chain [] c'" for c'
    apply (rule ends_seq[OF ends_rest[OF that]])
     apply (simp add: gateway_configuration_def model_objs_def model_chain_def inert_assign inert_ensure)
    apply (rule ends_seq[OF ends_rest])
      apply assumption
     apply (simp add: channel_configuration_def model_objs_def model_chain_def inert_assign inert_ensure)
    apply (erule provider_primary)
    done
  show ?thesis
    using assms
    unfolding script_def ensure_nested_objects_def model_chain_def model_objs_def
    apply simp
    apply (erule ends_hit_ensure; simp?)
    apply (erule ends_hit_ensure; simp?)
    apply (erule ends_hit_ensure; simp?)
    apply (erule ends_inert, rule inert_ensure, simp)
    apply (erule ends_inert, rule inert_ensure, simp)
    apply (erule ends_inert, rule inert_cleanup, simp, simp, simp)
    apply (erule rest[unfolded model_objs_def model_chain_def])
    done
qed

lemma provider_anthropic:
  assumes "shape providers_objs [] [([''models'', ''providers'', ''anthropic''], JUndef)] c"
  shows "ends_in (provider_configuration e)
           (shape providers_objs [] [([''models'', ''providers'', ''anthropic''], anthropic_override e)]) c"
proof -
  consider (w) "isWorkersAI e"
    | (g1) "\<not> isWorkersAI e" "isOpenAI e" "isGroq e" "is_set (MISTRAL_API_KEY e)"
    | (g2) "\<not> isWorkersAI e" "isOpenAI e" "isGroq e" "\<not> is_set (MISTRAL_API_KEY e)"
    | (o) "\<not> isWorkersAI e" "isOpenAI e" "\<not> isGroq e"
    | (b) "\<not> isWorkersAI e" "\<not> isOpenAI e" "baseUrl e \<noteq> []"
    | (k) "\<not> isWorkersAI e" "\<not> isOpenAI e" "baseUrl e = []" "is_set (ANTHROPIC_API_KEY e)"
    | (d) "\<not> isWorkersAI e" "\<not> isOpenAI e" "baseUrl e = []" "\<not> is_set (ANTHROPIC_API_KEY e)"
    by blast
  then show ?thesis
  proof cases
    case w
    with assms show ?thesis
      unfolding providers_objs_def
      apply (simp add: provider_configuration_def anthropic_override_def branch_defs)
      apply ((erule ends_hit_assign[where p = "[''models'', ''providers'', ''anthropic'']"]; simp?)
             | (erule ends_inert, (rule inert_assign | rule inert_ensure); simp?))+
      apply (rule ends_done, assumption)
      done
  next
    case g1
    with assms show ?thesis
      unfolding providers_objs_def
      apply (simp add: provider_configuration_def anthropic_override_def branch_defs when_stmt_def)
      apply ((erule ends_hit_assign[where p = "[''models'', ''providers'', ''anthropic'']"]; simp?)
             | (erule ends_inert, (rule inert_assign | rule inert_ensure); simp?))+
      apply (rule ends_done, assumption)
      done
  next
    case g2
    with assms show ?thesis
      unfolding providers_objs_def
      apply (simp add: provider_configuration_def anthropic_override_def branch_defs when_stmt_def)
      apply ((erule ends_hit_assign[where p = "[''models'', ''providers'', ''anthropic'']"]; simp?)
             | (erule ends_inert, (rule inert_assign | rule inert_ensure); simp?))+
      apply (rule ends_done, assumption)
      done
  next
    case o
    with assms show ?thesis
      unfolding providers_objs_def
      apply (simp add: provider_configuration_def anthropic_override_def branch_defs)
      apply ((erule ends_hit_assign[where p = "[''models'', ''providers'', ''anthropic'']"]; simp?)
             | (erule ends_inert, (rule inert_assign | rule inert_ensure); simp?))+
      apply (rule ends_done, assumption)
      done
  next
    case b
    with assms show ?thesis
      unfolding providers_objs_def
      apply (simp add: provider_configuration_def anthropic_override_def branch_defs)
      apply ((erule ends_hit_assign[where p = "[''models'', ''providers'', ''anthropic'']"]; simp?)
             | (erule ends_inert, (rule inert_assign | rule inert_ensure); simp?))+
      apply (rule ends_done, assumption)
      done
  next
    case k
    with assms show ?thesis
      unfolding providers_objs_def
      apply (simp add: provider_configuration_def anthropic_override_def branch_defs)
      apply ((erule ends_hit_assign[where p = "[''models'', ''providers'', ''anthropic'']"]; simp?)
             | (erule ends_inert, (rule inert_assign | rule inert_ensure); simp?))+
      apply (rule ends_done, assumption)
      done
  next
    case d
    with assms show ?thesis
      unfolding providers_objs_def
      apply (simp add: provider_configuration_def anthropic_override_def branch_defs)
      apply ((erule ends_hit_assign[where p = "[''models'', ''providers'', ''anthropic'']"]; simp?)
             | (erule ends_inert, (rule inert_assign | rule inert_ensure); simp?))+
      apply (rule ends_done, assumption)
      done
  qed
qed

lemma anthropic_when_completes:
  assumes o: "objs providers_objs c0"
    and b: "hasInvalidModels (peek [''models'', ''providers'', ''anthropic'', ''models''] c0) = Inr True"
    and r: "update_config e (Some c0) = Inr c"
  shows "\<exists>c1 c2.
           run ensure_nested_objects c0 = Inr c1
         \<and> cleanup_anthropic c1 = Inr c2
         \<and> peek [''models'', ''providers'', ''anthropic''] c2 = JUndef
         \<and> run (gateway_configuration e @ channel_configuration e @ provider_configuration e) c2 = Inr c
         \<and> peek [''models'', ''providers'', ''anthropic''] c = anthropic_override e"
proof -
  let ?ms = "peek [''models'', ''providers'', ''anthropic'', ''models''] c0"
  let ?V = "[([''models'', ''providers'', ''anthropic'', ''models''], ?ms)]"
  from r have "run (ensure_nested_objects
                 @ (cleanup_anthropic
                    # (gateway_configuration e @ channel_configuration e @ provider_configuration e))) c0
               = Inr c"
    by (simp add: update_config_def initial_config_def script_def)
  from run_appendD[OF this] obtain c1 where
    r1: "run ensure_nested_objects c0 = Inr c1"
    and r1': "run (cleanup_anthropic
                    # (gateway_configuration e @ channel_configuration e @ provider_configuration e)) c1
              = Inr c" by blast
  from run_ConsD[OF r1'] obtain c2 where
    r2: "cleanup_anthropic c1 = Inr c2"
    and r3: "run (gateway_configuration e @ channel_configuration e @ provider_configuration e) c2 = Inr c"
    by blast
  from o have s0: "shape providers_objs [] ?V c0"
    by (simp add: shape_def vals_def lax_def del: peek.simps(2))
  have "list_all (inert providers_objs [] ?V) ensure_nested_objects"
    by (simp add: ensure_nested_objects_def inert_ensure)
  from run_inert[OF this s0 r1] have s1: "shape providers_objs [] ?V c1" .
  then have ms1: "peek [''models'', ''providers'', ''anthropic'', ''models''] c1 = ?ms"
    and root: "is_obj c1"
    and par: "is_obj (peek (butlast [''models'', ''providers'', ''anthropic'']) c1)"
    by (simp_all add: shape_def vals_def objs_def providers_objs_def del: peek.simps(2))
  from root have nn: "\<not> nullish c1" by (rule is_obj_not_nullish)
  have st: "settable [''models'', ''providers'', ''anthropic''] c1"
    by (rule settable_butlast[OF _ par]) simp
  have cl: "cleanup_anthropic c1 = js_delete [''models'', ''providers'', ''anthropic''] c1"
    using b nn ms1 hasInvalidModels_truthy[OF b]
    by (simp add: cleanup_anthropic_def del: peek.simps js_delete.simps)
  have "\<exists>c'. js_delete [''models'', ''providers'', ''anthropic''] c1 = Inr c'
        \<and> shape providers_objs []
             (([''models'', ''providers'', ''anthropic''], JUndef) #
              filter (\<lambda>(q, v). \<not> prefix [''models'', ''providers'', ''anthropic''] q) ?V) c'"
    by (rule step_delete[OF s1 _ st]) (simp_all add: providers_objs_def)
  with cl r2 have s2: "shape providers_objs [] [([''models'', ''providers'', ''anthropic''], JUndef)] c2"
    by auto
  then have g2: "peek [''models'', ''providers'', ''anthropic''] c2 = JUndef"
    by (simp add: shape_def vals_def del: peek.simps(2))
  have "ends_in (gateway_configuration e @ channel_configuration e @ provider_configuration e)
          (shape providers_objs [] [([''models'', ''providers'', ''anthropic''], anthropic_override e)]) c2"
    apply (rule ends_seq[OF ends_rest[OF s2]])
     apply (simp add: gateway_configuration_def providers_objs_def inert_assign inert_ensure)
    apply (rule ends_seq[OF ends_rest])
      apply assumption
     apply (simp add: channel_configuration_def providers_objs_def inert_assign inert_ensure)
    apply (erule provider_anthropic)
    done
  with r3 have "peek [''models'', ''providers'', ''anthropic''] c = anthropic_override e"
    by (simp add: ends_in_def shape_def vals_def del: peek.simps(2))
  with r1 r2 g2 r3 show ?thesis by blast
qed


lemma inert_assign_provider:
  "k \<noteq> j \<Longrightarrow>
   inert [[''models'', ''providers''], [''models''], []] [] [([''models'', ''providers'', k], v)]
     (assign [''models'', ''providers'', j] x)"
  by (rule inert_assign) auto

lemma script_inert_other:
  assumes "k \<noteq> ''anthropic''" "k \<notin> set (branch_providers e)"
  shows "list_all (inert providers_objs [] [([''models'', ''providers'', k], v)]) (script e)"
  using assms
  by (simp add: script_def ensure_nested_objects_def gateway_configuration_def
        channel_configuration_def provider_configuration_def branch_defs branch_providers_def
        providers_objs_def inert_assign inert_ensure inert_cleanup inert_assign_provider
        split: if_splits)

lemma other_provider_kept:
  assumes o: "objs providers_objs c0"
    and k: "k \<noteq> ''anthropic''" "k \<notin> set (branch_providers e)"
    and r: "run (script e) c0 = Inr c"
  shows "peek [''models'', ''providers'', k] c = peek [''models'', ''providers'', k] c0"
proof -
  let ?V = "[([''models'', ''providers'', k], peek [''models'', ''providers'', k] c0)]"
  from o have "shape providers_objs [] ?V c0"
    by (simp add: shape_def vals_def lax_def del: peek.simps(2))
  from run_inert[OF script_inert_other[OF k] this r] show ?thesis
    by (simp add: shape_def vals_def del: peek.simps(2))
qed

lemma cleanup_keeps_others:
  assumes o: "objs providers_objs c0"
    and k: "k \<noteq> ''anthropic''"
    and r1: "run ensure_nested_objects c0 = Inr c1"
    and r2: "cleanup_anthropic c1 = Inr c2"
  shows "peek [''models'', ''providers'', k] c2 = peek [''models'', ''providers'', k] c0"
proof -
  let ?V = "[([''models'', ''providers'', k], peek [''models'', ''providers'', k] c0)]"
  from o have s: "shape providers_objs [] ?V c0"
    by (simp add: shape_def vals_def lax_def del: peek.simps(2))
  have i: "list_all (inert providers_objs [] ?V) (ensure_nested_objects @ [cleanup_anthropic])"
    using k by (simp add: ensure_nested_objects_def providers_objs_def inert_ensure inert_cleanup)
  from r1 r2 have "run (ensure_nested_objects @ [cleanup_anthropic]) c0 = Inr c2"
    by (simp add: run_append)
  from run_inert[OF i s this] show ?thesis
    by (simp add: shape_def vals_def del: peek.simps(2))
qed



subsection \<open>The document written back\<close>

lemma map_of_written:
  "map_of kvs k = Some v \<Longrightarrow> v \<noteq> JUndef \<Longrightarrow>
   map_of (map (\<lambda>(k, v). (k, written v)) (filter (\<lambda>(k, v). v \<noteq> JUndef) kvs)) k = Some (written v)"
  by (induction kvs) (auto split: if_splits)

lemma own_prop_written:
  "is_obj c \<Longrightarrow> own_prop c k \<noteq> JUndef \<Longrightarrow> own_prop (written c) k = written (own_prop c k)"
  by (cases c) (auto simp: map_of_written split: option.splits)

lemma is_obj_written [simp]: "is_obj (written c) = is_obj c"
  by (cases c) auto

lemma peek_written:
  "\<forall>r. strict_prefix r q \<longrightarrow> is_obj (peek r c) \<Longrightarrow> peek q c \<noteq> JUndef \<Longrightarrow>
   peek q (written c) = written (peek q c)"
proof (induction q arbitrary: c)
  case Nil
  then show ?case by simp
next
  case (Cons k ks)
  from Cons.prems(1) have o: "is_obj c" by (metis peek.simps(1) strict_prefix_simps(2))
  from Cons.prems(2) have d: "peek ks (own_prop c k) \<noteq> JUndef" by (simp add: peek_Cons del: peek.simps(2))
  then have d': "own_prop c k \<noteq> JUndef" by auto
  have "\<forall>r. strict_prefix r ks \<longrightarrow> is_obj (peek r (own_prop c k))"
  proof (intro allI impI)
    fix r assume "strict_prefix r ks"
    then have "strict_prefix (k # r) (k # ks)" by simp
    with Cons.prems(1) have "is_obj (peek (k # r) c)" by blast
    then show "is_obj (peek r (own_prop c k))" by (simp add: peek_Cons del: peek.simps(2))
  qed
  from Cons.IH[OF this d] o d' show ?case
    by (simp add: peek_Cons own_prop_written del: peek.simps(2))
qed


lemma well_shaped_empty: "well_shaped (JObj [])"
  by (simp add: well_shaped_def lax_def expected_objects_def obj_or_falsy_def anthropic_models_ok_def)

lemma hydrate_shape:
  assumes "well_shaped (initial_config persisted)"
  shows "\<exists>c a. update_config e persisted = Inr c \<and> hydrate e persisted = Inr (written c)
           \<and> shape (final_objs e) expected_objects (final_vals e a) c"
  using script_runs[OF assms, of e]
  by (auto simp: runs_to_def update_config_def hydrate_def)

lemma hydrate_written:
  "hydrate e persisted = Inr c \<Longrightarrow>
   \<exists>c'. run (script e) (initial_config persisted) = Inr c' \<and> c = written c'"
  by (auto simp: hydrate_def update_config_def split: sum.splits)

lemma written_gateway_fields:
  assumes o: "objs [[''gateway'', ''http'', ''endpoints''], [''gateway'', ''http''], [''gateway''], []] c"
    and v: "vals gw_vals c"
  shows "peek [''gateway'', ''port''] (written c) = JNum 18789
       \<and> peek [''gateway'', ''mode''] (written c) = JStr ''local''
       \<and> peek [''gateway'', ''trustedProxies''] (written c) = JArr [JStr ''10.1.0.0''] []
       \<and> peek [''gateway'', ''http'', ''endpoints'', ''chatCompletions''] (written c)
           = JObj [(''enabled'', JBool True)]"
proof -
  from o have os: "is_obj c" "is_obj (peek [''gateway''] c)" "is_obj (peek [''gateway'', ''http''] c)"
      "is_obj (peek [''gateway'', ''http'', ''endpoints''] c)"
    by (simp_all add: objs_def del: peek.simps(2))
  from v have vs: "peek [''gateway'', ''port''] c = JNum 18789"
      "peek [''gateway'', ''mode''] c = JStr ''local''"
      "peek [''gateway'', ''trustedProxies''] c = JArr [JStr ''10.1.0.0''] []"
      "peek [''gateway'', ''http'', ''endpoints'', ''chatCompletions''] c = JObj [(''enabled'', JBool True)]"
    by (simp_all add: vals_def gw_vals_def del: peek.simps(2))
  have p1: "\<forall>r. strict_prefix r [''gateway'', k] \<longrightarrow> is_obj (peek r c)" for k
    using os by (auto simp: strict_prefix_def prefix_Cons simp del: peek.simps(2))
  have p2: "\<forall>r. strict_prefix r [''gateway'', ''http'', ''endpoints'', k] \<longrightarrow> is_obj (peek r c)" for k
    using os by (auto simp: strict_prefix_def prefix_Cons simp del: peek.simps(2))
  have "peek [''gateway'', ''port''] (written c) = JNum 18789"
    using peek_written[OF p1, of "''port''"] vs by simp
  moreover have "peek [''gateway'', ''mode''] (written c) = JStr ''local''"
    using peek_written[OF p1, of "''mode''"] vs by simp
  moreover have "peek [''gateway'', ''trustedProxies''] (written c) = JArr [JStr ''10.1.0.0''] []"
    using peek_written[OF p1, of "''trustedProxies''"] vs by simp
  moreover have "peek [''gateway'', ''http'', ''endpoints'', ''chatCompletions''] (written c)
                   = JObj [(''enabled'', JBool True)]"
    using peek_written[OF p2, of "''chatCompletions''"] vs by simp
  ultimately show ?thesis by blast
qed

lemma written_primary:
  assumes o: "objs model_objs c"
    and v: "peek [''agents'', ''defaults'', ''model'', ''primary''] c = JStr m"
  shows "peek [''agents'', ''defaults'', ''model'', ''primary''] (written c) = JStr m"
proof -
  from o have os: "is_obj c" "is_obj (peek [''agents''] c)" "is_obj (peek [''agents'', ''defaults''] c)"
      "is_obj (peek [''agents'', ''defaults'', ''model''] c)"
    by (simp_all add: objs_def model_objs_def del: peek.simps(2))
  have p: "\<forall>r. strict_prefix r [''agents'', ''defaults'', ''model'', ''primary''] \<longrightarrow> is_obj (peek r c)"
    using os by (auto simp: strict_prefix_def prefix_Cons simp del: peek.simps(2))
  show ?thesis using peek_written[OF p] v by simp
qed

lemma primary_model_nonempty: "primary_model e \<noteq> []"
  by (simp add: primary_model_def)




subsection \<open>Lists and the start script\<close>

lemma restore_events:
  assumes "start_moltbot e date s = (out, evs, s')"
    and "ev \<in> set evs" and "ev \<in> {RestoredConfig, RestoredLegacy, RestoredSkills}"
  shows "should_restore_from_r2 date (r2_sync s) (local_sync s)"
proof (rule ccontr)
  assume n: "\<not> should_restore_from_r2 date (r2_sync s) (local_sync s)"
  then have 1: "restore_config date s = ([], s)" by (simp add: restore_config_def)
  from n have 2: "restore_skills date s = ([], s)" by (simp add: restore_skills_def)
  from assms(1) 1 2 have "set evs \<subseteq> {ConfigWritten, KilledOrphans}"
    by (auto simp: start_moltbot_def split: if_splits sum.splits)
  with assms(2,3) show False by auto
qed

lemma map_filter_append: "List.map_filter f (xs @ ys) = List.map_filter f xs @ List.map_filter f ys"
  by (simp add: List.map_filter_def)

lemma length_map_filter: "length (List.map_filter f xs) \<le> length xs"
  by (simp add: List.map_filter_def)

lemma map_filter_all:
  "\<forall>x\<in>set xs. f x \<noteq> None \<Longrightarrow> List.map_filter f xs = map (\<lambda>x. the (f x)) xs"
  by (induction xs) (auto simp: List.map_filter_def)


subsection \<open>The claims\<close>

text \<open>
  C1. A restart request whose token is missing or empty, or differs from the configured
  gateway token, or arrives when no gateway token is configured, is answered with status
  401 and the error body; the handler calls neither \<open>kill\<close> nor
  \<open>ensureMoltbotGateway\<close> and the sandbox state is the one it was given.
\<close>

theorem restart_unauthorized:
  assumes "token = None \<or> token = Some [] \<or> token \<noteq> gateway_token \<or> gateway_token = None"
  shows "restart fnd kll ens gateway_token token sb
         = ((401, ErrorBody ''Invalid or missing token''), [], sb)"
  using assms by (auto simp: restart_def falsy_str_def)

theorem restart_unauthorized_witness:
  "restart (\<lambda>sb. Inr (Some sb)) (\<lambda>p sb. 0) Suc (Some ''secret'') (Some ''guess'') 7
     = ((401, ErrorBody ''Invalid or missing token''), [], 7)
   \<and> restart (\<lambda>sb. Inr (Some sb)) (\<lambda>p sb. 0) Suc (Some ''secret'') None 7
     = ((401, ErrorBody ''Invalid or missing token''), [], 7)
   \<and> restart (\<lambda>sb. Inr (Some sb)) (\<lambda>p sb. 0) Suc None (Some ''guess'') 7
     = ((401, ErrorBody ''Invalid or missing token''), [], 7)"
  using restart_unauthorized [where token = "Some ''guess''" and gateway_token = "Some ''secret''"
          and fnd = "\<lambda>sb. Inr (Some sb)" and kll = "\<lambda>p sb. 0" and ens = Suc and sb = 7]
        restart_unauthorized [where token = None and gateway_token = "Some ''secret''"
          and fnd = "\<lambda>sb. Inr (Some sb)" and kll = "\<lambda>p sb. 0" and ens = Suc and sb = 7]
        restart_unauthorized [where token = "Some ''guess''" and gateway_token = None
          and fnd = "\<lambda>sb. Inr (Some sb)" and kll = "\<lambda>p sb. 0" and ens = Suc and sb = 7]
  by simp





text \<open>
  C3. When \<open>pgrep\<close> finds a gateway process and the health request to port 18789
  succeeds, the start script exits at once with status 0: it restores nothing, writes no
  configuration, kills nothing and does not reach the \<open>exec\<close> that launches a gateway,
  and the container, its gateway process included, is unchanged. A second run from the
  resulting state does the same.
\<close>

theorem start_idempotent:
  assumes "gateway_pids s \<noteq> []" and "gateway_responsive s"
  shows "start_moltbot e date s = (AlreadyRunning, [], s)
         \<and> (case start_moltbot e date s of
               (out, evs, s') \<Rightarrow> start_moltbot e date s' = (AlreadyRunning, [], s))"
  using assms by (simp add: start_moltbot_def)

theorem start_idempotent_witness:
  "gateway_pids running_container \<noteq> [] \<and> gateway_responsive running_container
   \<and> start_moltbot no_env sample_date running_container = (AlreadyRunning, [], running_container)
   \<and> (case start_moltbot no_env sample_date running_container of
         (out, evs, s') \<Rightarrow>
           start_moltbot no_env sample_date s' = (AlreadyRunning, [], running_container))"
proof -
  have a: "gateway_pids running_container \<noteq> []" and b: "gateway_responsive running_container"
    by (simp_all add: running_container_def)
  from start_idempotent[OF a b, of no_env sample_date] a b show ?thesis by simp
qed

text \<open>
  C4 (as amended). Let the persisted document be an object whose \<open>models\<close> and
  \<open>models.providers\<close> are objects and whose \<open>anthropic\<close> provider has a model list in
  which some element has no truthy \<open>name\<close>, with no \<open>null\<close> element up to and
  including it. Whenever the script completes, its clean-up step, which runs after the
  nested objects are ensured and before every statement that depends on the
  environment, has deleted \<open>models.providers.anthropic\<close> and has left the entry of
  every other provider as it was persisted. The configuration the script goes on to
  write holds under \<open>anthropic\<close> only what the selected provider branch puts there, and
  every provider entry that the branch does not assign is still as it was persisted. The
  script does complete when the document has the expected shape.
\<close>

theorem broken_anthropic_removed:
  assumes "providers_shape c0"
    and "peek [''models'', ''providers'', ''anthropic'', ''models''] c0 = JArr es xs"
    and "i < length es"
    and "\<not> truthy (own_prop (es ! i) ''name'')"
    and "\<forall>j\<le>i. \<not> nullish (es ! j)"
  shows "(\<forall>c. update_config e (Some c0) = Inr c \<longrightarrow>
            (\<exists>c1 c2.
               run ensure_nested_objects c0 = Inr c1
             \<and> cleanup_anthropic c1 = Inr c2
             \<and> peek [''models'', ''providers'', ''anthropic''] c2 = JUndef
             \<and> (\<forall>k. k \<noteq> ''anthropic'' \<longrightarrow>
                    peek [''models'', ''providers'', k] c2 = peek [''models'', ''providers'', k] c0)
             \<and> run (gateway_configuration e @ channel_configuration e @ provider_configuration e) c2
                 = Inr c
             \<and> peek [''models'', ''providers'', ''anthropic''] c = anthropic_override e
             \<and> (\<forall>k. k \<noteq> ''anthropic'' \<and> k \<notin> set (branch_providers e) \<longrightarrow>
                    peek [''models'', ''providers'', k] c = peek [''models'', ''providers'', k] c0)))
       \<and> (well_shaped c0 \<longrightarrow> (\<exists>c. update_config e (Some c0) = Inr c))"
proof -
  from assms(3-5) have "some_unnamed es = Inr True"
    unfolding some_unnamed_iff by blast
  with assms(2)
  have b: "hasInvalidModels (peek [''models'', ''providers'', ''anthropic'', ''models''] c0) = Inr True"
    by simp
  from assms(1) have o: "objs providers_objs c0" by (simp add: providers_shape_def)
  have removed: "\<exists>c1 c2.
               run ensure_nested_objects c0 = Inr c1
             \<and> cleanup_anthropic c1 = Inr c2
             \<and> peek [''models'', ''providers'', ''anthropic''] c2 = JUndef
             \<and> (\<forall>k. k \<noteq> ''anthropic'' \<longrightarrow>
                    peek [''models'', ''providers'', k] c2 = peek [''models'', ''providers'', k] c0)
             \<and> run (gateway_configuration e @ channel_configuration e @ provider_configuration e) c2
                 = Inr c
             \<and> peek [''models'', ''providers'', ''anthropic''] c = anthropic_override e
             \<and> (\<forall>k. k \<noteq> ''anthropic'' \<and> k \<notin> set (branch_providers e) \<longrightarrow>
                    peek [''models'', ''providers'', k] c = peek [''models'', ''providers'', k] c0)"
    if u: "update_config e (Some c0) = Inr c" for c
  proof -
    from anthropic_when_completes[OF o b u] obtain c1 c2 where
      r1: "run ensure_nested_objects c0 = Inr c1"
      and r2: "cleanup_anthropic c1 = Inr c2"
      and g2: "peek [''models'', ''providers'', ''anthropic''] c2 = JUndef"
      and r3: "run (gateway_configuration e @ channel_configuration e @ provider_configuration e) c2
                 = Inr c"
      and g: "peek [''models'', ''providers'', ''anthropic''] c = anthropic_override e"
      by blast
    have k2: "peek [''models'', ''providers'', k] c2 = peek [''models'', ''providers'', k] c0"
      if "k \<noteq> ''anthropic''" for k
      using cleanup_keeps_others[OF o that r1 r2] .
    from u have "run (script e) c0 = Inr c" by (simp add: update_config_def initial_config_def)
    then have k3: "peek [''models'', ''providers'', k] c = peek [''models'', ''providers'', k] c0"
      if "k \<noteq> ''anthropic''" "k \<notin> set (branch_providers e)" for k
      using other_provider_kept[OF o that] by blast
    from r1 r2 g2 r3 g k2 k3 show ?thesis by blast
  qed
  have completes: "\<exists>c. update_config e (Some c0) = Inr c" if "well_shaped c0"
  proof -
    from that have "well_shaped (initial_config (Some c0))" by (simp add: initial_config_def)
    from hydrate_shape[OF this, of e] show ?thesis by blast
  qed
  from removed completes show ?thesis by blast
qed

theorem broken_anthropic_removed_witness:
  "providers_shape second_nameless_config
   \<and> peek [''models'', ''providers'', ''anthropic'', ''models''] second_nameless_config
       = JArr second_nameless_models []
   \<and> (1::nat) < length second_nameless_models
   \<and> truthy (own_prop (second_nameless_models ! 0) ''name'')
   \<and> \<not> truthy (own_prop (second_nameless_models ! 1) ''name'')
   \<and> \<not> nullish (second_nameless_models ! 0)
   \<and> \<not> nullish (second_nameless_models ! 1)
   \<and> well_shaped second_nameless_config
   \<and> (\<exists>c c1 c2.
           update_config direct_key_env (Some second_nameless_config) = Inr c
         \<and> run ensure_nested_objects second_nameless_config = Inr c1
         \<and> cleanup_anthropic c1 = Inr c2
         \<and> peek [''models'', ''providers'', ''anthropic''] c2 = JUndef
         \<and> peek [''models'', ''providers'', ''mistral''] c2 = persisted_mistral
         \<and> run (gateway_configuration direct_key_env @ channel_configuration direct_key_env
                 @ provider_configuration direct_key_env) c2 = Inr c
         \<and> peek [''models'', ''providers'', ''anthropic''] c
             = JObj [(''baseUrl'', JStr ''https://api.anthropic.com''),
                     (''apiKey'', JStr ''sk-ant-key''),
                     (''api'', JStr ''anthropic-messages''),
                     (''models'',
                      JArr [JObj [(''id'', JStr ''claude-3-5-sonnet-latest''),
                                  (''name'', JStr ''Claude 3.5 Sonnet''),
                                  (''contextWindow'', JNum 200000)],
                            JObj [(''id'', JStr ''claude-3-5-haiku-latest''),
                                  (''name'', JStr ''Claude 3.5 Haiku''),
                                  (''contextWindow'', JNum 200000)],
                            JObj [(''id'', JStr ''claude-3-opus-latest''),
                                  (''name'', JStr ''Claude 3 Opus''),
                                  (''contextWindow'', JNum 200000)]] [])]
         \<and> peek [''models'', ''providers'', ''mistral''] c = persisted_mistral)"
proof -
  have p: "providers_shape second_nameless_config"
    by (simp add: second_nameless_config_def providers_shape_def providers_objs_def objs_def)
  have a: "peek [''models'', ''providers'', ''anthropic'', ''models''] second_nameless_config
             = JArr second_nameless_models []"
    by (simp add: second_nameless_config_def)
  have l: "(1::nat) < length second_nameless_models" by (simp add: second_nameless_models_def)
  have t: "truthy (own_prop (second_nameless_models ! 0) ''name'')"
    by (simp add: second_nameless_models_def)
  have n: "\<not> truthy (own_prop (second_nameless_models ! 1) ''name'')"
    by (simp add: second_nameless_models_def)
  have nn: "\<forall>j\<le>1. \<not> nullish (second_nameless_models ! j)"
    by (auto simp: second_nameless_models_def le_Suc_eq)
  have w: "well_shaped second_nameless_config"
    by (simp add: second_nameless_config_def second_nameless_models_def well_shaped_def lax_def
          expected_objects_def obj_or_falsy_def anthropic_models_ok_def)
  have m: "peek [''models'', ''providers'', ''mistral''] second_nameless_config = persisted_mistral"
    by (simp add: second_nameless_config_def persisted_mistral_def)
  have km: "''mistral'' \<noteq> ''anthropic'' \<and> ''mistral'' \<notin> set (branch_providers direct_key_env)"
    by code_simp
  have ov: "anthropic_override direct_key_env
             = JObj [(''baseUrl'', JStr ''https://api.anthropic.com''),
                     (''apiKey'', JStr ''sk-ant-key''),
                     (''api'', JStr ''anthropic-messages''),
                     (''models'',
                      JArr [JObj [(''id'', JStr ''claude-3-5-sonnet-latest''),
                                  (''name'', JStr ''Claude 3.5 Sonnet''),
                                  (''contextWindow'', JNum 200000)],
                            JObj [(''id'', JStr ''claude-3-5-haiku-latest''),
                                  (''name'', JStr ''Claude 3.5 Haiku''),
                                  (''contextWindow'', JNum 200000)],
                            JObj [(''id'', JStr ''claude-3-opus-latest''),
                                  (''name'', JStr ''Claude 3 Opus''),
                                  (''contextWindow'', JNum 200000)]] [])]"
    by code_simp
  note T = broken_anthropic_removed[OF p a l n nn, of direct_key_env, unfolded ov]
  from T[THEN conjunct2, rule_format, OF w]
  obtain c where u: "update_config direct_key_env (Some second_nameless_config) = Inr c" ..
  from T[THEN conjunct1, rule_format, OF u] obtain c1 c2 where
    r1: "run ensure_nested_objects second_nameless_config = Inr c1"
    and r2: "cleanup_anthropic c1 = Inr c2"
    and g2: "peek [''models'', ''providers'', ''anthropic''] c2 = JUndef"
    and k2: "\<forall>k. k \<noteq> ''anthropic'' \<longrightarrow>
               peek [''models'', ''providers'', k] c2
                 = peek [''models'', ''providers'', k] second_nameless_config"
    and r3: "run (gateway_configuration direct_key_env @ channel_configuration direct_key_env
                 @ provider_configuration direct_key_env) c2 = Inr c"
    and g: "peek [''models'', ''providers'', ''anthropic''] c
             = JObj [(''baseUrl'', JStr ''https://api.anthropic.com''),
                     (''apiKey'', JStr ''sk-ant-key''),
                     (''api'', JStr ''anthropic-messages''),
                     (''models'',
                      JArr [JObj [(''id'', JStr ''claude-3-5-sonnet-latest''),
                                  (''name'', JStr ''Claude 3.5 Sonnet''),
                                  (''contextWindow'', JNum 200000)],
                            JObj [(''id'', JStr ''claude-3-5-haiku-latest''),
                                  (''name'', JStr ''Claude 3.5 Haiku''),
                                  (''contextWindow'', JNum 200000)],
                            JObj [(''id'', JStr ''claude-3-opus-latest''),
                                  (''name'', JStr ''Claude 3 Opus''),
                                  (''contextWindow'', JNum 200000)]] [])]"
    and k3: "\<forall>k. k \<noteq> ''anthropic'' \<and> k \<notin> set (branch_providers direct_key_env) \<longrightarrow>
               peek [''models'', ''providers'', k] c
                 = peek [''models'', ''providers'', k] second_nameless_config"
    by blast
  have "peek [''models'', ''providers'', ''mistral''] c2
          = peek [''models'', ''providers'', ''mistral''] second_nameless_config"
    by (rule k2[rule_format]) simp
  with m have m2: "peek [''models'', ''providers'', ''mistral''] c2 = persisted_mistral"
    by (simp del: peek.simps(2))
  have "peek [''models'', ''providers'', ''mistral''] c
          = peek [''models'', ''providers'', ''mistral''] second_nameless_config"
    by (rule k3[rule_format]) (rule km)
  with m have m3: "peek [''models'', ''providers'', ''mistral''] c = persisted_mistral"
    by (simp del: peek.simps(2))
  have n0: "\<not> nullish (second_nameless_models ! 0)" and n1: "\<not> nullish (second_nameless_models ! 1)"
    by (simp_all add: second_nameless_models_def)
  from u r1 r2 g2 m2 r3 g m3 p a l t n n0 n1 w show ?thesis by blast
qed

text \<open>
  C4 as stated fails for a provider other than \<open>anthropic\<close>: a persisted \<open>openai\<close>
  provider whose model record has no \<open>name\<close> is written back unchanged. It also fails
  for a document outside the expected shape: with \<open>"agents": "main"\<close> the script throws
  before it reaches the clean-up.
\<close>

theorem other_provider_counterexample:
  "hydrate no_env (Some nameless_openai_config)
     = Inr (JObj [(''models'', JObj [(''providers'', JObj [(''openai'',
                     JObj [(''baseUrl'', JStr ''https://api.openai.com/v1''),
                           (''models'', JArr [JObj [(''id'', JStr ''gpt-4o'')]] [])])])]),
                  (''agents'', JObj [(''defaults'', JObj [(''model'',
                      JObj [(''primary'', JStr ''anthropic/claude-opus-4-5'')])])]),
                  (''gateway'',
                   JObj [(''port'', JNum 18789), (''mode'', JStr ''local''),
                         (''trustedProxies'', JArr [JStr ''10.1.0.0''] []),
                         (''http'', JObj [(''endpoints'',
                            JObj [(''chatCompletions'', JObj [(''enabled'', JBool True)])])])]),
                  (''channels'', JObj [])])
   \<and> hydrate no_env
         (Some (JObj [(''agents'', JStr ''main''),
                      (''models'', JObj [(''providers'', JObj [(''anthropic'',
                         JObj [(''models'', JArr [JObj [(''id'', JStr ''claude-3-opus-latest'')]] [])])])])]))
       = Inl TypeError"
  by code_simp

text \<open>
  C5. \<open>should_restore_from_r2\<close> succeeds only if the remote marker exists and either
  there is no local marker or the epoch of the remote marker is strictly greater than the
  epoch of the local one; markers of equal epoch never restore. Every restore the start
  script performs (configuration, legacy configuration or skills) happens only when
  \<open>should_restore_from_r2\<close> holds of the markers the script started with.
\<close>

theorem restore_only_when_newer:
  "(should_restore_from_r2 date r2 loc \<longrightarrow>
      (\<exists>r. r2 = Some r \<and> (loc = None \<or> (\<exists>l. loc = Some l \<and> epoch date l < epoch date r))))
   \<and> (epoch date r = epoch date l \<longrightarrow> \<not> should_restore_from_r2 date (Some r) (Some l))
   \<and> (start_moltbot e date s = (out, evs, s')
        \<and> (RestoredConfig \<in> set evs \<or> RestoredLegacy \<in> set evs \<or> RestoredSkills \<in> set evs)
      \<longrightarrow> should_restore_from_r2 date (r2_sync s) (local_sync s))"
proof (intro conjI impI)
  assume "should_restore_from_r2 date r2 loc"
  then show "\<exists>r. r2 = Some r \<and> (loc = None \<or> (\<exists>l. loc = Some l \<and> epoch date l < epoch date r))"
    by (cases r2; cases loc) (simp_all add: should_restore_from_r2_def)
next
  assume "epoch date r = epoch date l"
  then show "\<not> should_restore_from_r2 date (Some r) (Some l)"
    by (simp add: should_restore_from_r2_def)
next
  assume a: "start_moltbot e date s = (out, evs, s')
        \<and> (RestoredConfig \<in> set evs \<or> RestoredLegacy \<in> set evs \<or> RestoredSkills \<in> set evs)"
  then obtain ev where "ev \<in> set evs" "ev \<in> {RestoredConfig, RestoredLegacy, RestoredSkills}"
    by blast
  with a show "should_restore_from_r2 date (r2_sync s) (local_sync s)"
    using restore_events by blast
qed

theorem restore_only_when_newer_witness:
  "should_restore_from_r2 sample_date
      (Some ''2026-01-02T00:00:00+00:00'') (Some ''2026-01-01T00:00:00+00:00'')
   \<and> epoch sample_date ''2026-01-01T00:00:00+00:00'' < epoch sample_date ''2026-01-02T00:00:00+00:00''
   \<and> epoch sample_date ''2026-01-02T00:00:00+00:00'' = epoch sample_date ''2026-01-02T00:00:00+00:00''
   \<and> \<not> should_restore_from_r2 sample_date
          (Some ''2026-01-02T00:00:00+00:00'') (Some ''2026-01-02T00:00:00+00:00'')
   \<and> RestoredConfig \<in> set (fst (snd (start_moltbot no_env sample_date stale_container)))
   \<and> should_restore_from_r2 sample_date (r2_sync stale_container) (local_sync stale_container)"
proof -
  have 1: "should_restore_from_r2 sample_date
      (Some ''2026-01-02T00:00:00+00:00'') (Some ''2026-01-01T00:00:00+00:00'')"
    by (simp add: should_restore_from_r2_def epoch_def sample_date_def)
  have 2: "epoch sample_date ''2026-01-02T00:00:00+00:00'' = epoch sample_date ''2026-01-02T00:00:00+00:00''"
    by simp
  have 3: "start_moltbot no_env sample_date stale_container
             = (fst (start_moltbot no_env sample_date stale_container),
                fst (snd (start_moltbot no_env sample_date stale_container)),
                snd (snd (start_moltbot no_env sample_date stale_container)))"
    by simp
  have 4: "RestoredConfig \<in> set (fst (snd (start_moltbot no_env sample_date stale_container)))"
    by code_simp
  from restore_only_when_newer[of sample_date "Some ''2026-01-02T00:00:00+00:00''"
         "Some ''2026-01-01T00:00:00+00:00''" "''2026-01-02T00:00:00+00:00''"
         "''2026-01-02T00:00:00+00:00''" no_env stale_container
         "fst (start_moltbot no_env sample_date stale_container)"
         "fst (snd (start_moltbot no_env sample_date stale_container))"
         "snd (snd (start_moltbot no_env sample_date stale_container))"] 1 2 3 4
  show ?thesis by auto
qed

text \<open>
  C6. For a key of the session index, \<open>getHistory\<close> returns the messages parsed from
  the last \<open>limit\<close> lines of the transcript: they are a suffix, in the original order, of
  the messages of the whole transcript, there are at most \<open>limit\<close> of them, lines that do
  not parse are skipped, and when every line of the tail parses the result is exactly
  the tail. With \<open>limit = 2\<close> on five lines whose last two parse, the result is the last
  two messages in order.
\<close>

theorem history_tail:
  assumes "index sessionKey = Some path"
  shows "\<exists>ms. getHistory parse index read_lines sessionKey limit = Inr ms
           \<and> suffix ms (List.map_filter parse (read_lines path))
           \<and> length ms \<le> limit
           \<and> ms = List.map_filter parse (last_lines limit (read_lines path))
           \<and> ((\<forall>l\<in>set (last_lines limit (read_lines path)). parse l \<noteq> None) \<longrightarrow>
                ms = map (\<lambda>l. the (parse l)) (last_lines limit (read_lines path))
                \<and> length ms = min limit (length (read_lines path)))
           \<and> (read_lines path = [l1, l2, l3, l4, l5] \<and> limit = 2
                \<and> parse l4 = Some m4 \<and> parse l5 = Some m5 \<longrightarrow> ms = [m4, m5])"
proof -
  let ?ls = "read_lines path"
  let ?ms = "List.map_filter parse (last_lines limit ?ls)"
  have g: "getHistory parse index read_lines sessionKey limit = Inr ?ms"
    using assms by (simp add: getHistory_def)
  have "?ls = take (length ?ls - limit) ?ls @ last_lines limit ?ls"
    by (simp add: last_lines_def)
  then have "List.map_filter parse ?ls
      = List.map_filter parse (take (length ?ls - limit) ?ls) @ ?ms"
    by (metis map_filter_append)
  then have s: "suffix ?ms (List.map_filter parse ?ls)" by (simp add: suffix_def)
  have "length ?ms \<le> length (last_lines limit ?ls)" by (rule length_map_filter)
  then have b: "length ?ms \<le> limit" by (simp add: last_lines_def)
  have a: "?ms = map (\<lambda>l. the (parse l)) (last_lines limit ?ls) \<and> length ?ms = min limit (length ?ls)"
    if "\<forall>l\<in>set (last_lines limit ?ls). parse l \<noteq> None"
    using map_filter_all[OF that] by (auto simp: last_lines_def)
  have c: "?ms = [m4, m5]"
    if "read_lines path = [l1, l2, l3, l4, l5] \<and> limit = 2 \<and> parse l4 = Some m4 \<and> parse l5 = Some m5"
    using that by (simp add: last_lines_def List.map_filter_def)
  from g s b a c show ?thesis by blast
qed

theorem history_tail_witness:
  "sample_index ''agent:main:telegram:123'' = Some ''/s/abc.jsonl''
   \<and> getHistory sample_parse sample_index five_lines ''agent:main:telegram:123'' 2
      = Inr [''{4}'', ''{5}'']
   \<and> getHistory sample_parse sample_index damaged_lines ''agent:main:telegram:123'' 3
      = Inr [''{4}'']"
proof -
  have i: "sample_index ''agent:main:telegram:123'' = Some ''/s/abc.jsonl''"
    by (simp add: sample_index_def)
  have p: "sample_parse ''{4}'' = Some ''{4}''" "sample_parse ''{5}'' = Some ''{5}''"
    "sample_parse ''oops'' = None" "sample_parse ''not json'' = None"
    by (simp_all add: sample_parse_def)
  from i history_tail[where index = sample_index and sessionKey = "''agent:main:telegram:123''"
         and path = "''/s/abc.jsonl''" and parse = sample_parse and read_lines = five_lines and limit = 2
         and ?l1.0 = "''{1}''" and ?l2.0 = "''{2}''" and ?l3.0 = "''{3}''" and ?l4.0 = "''{4}''"
         and ?l5.0 = "''{5}''" and ?m4.0 = "''{4}''" and ?m5.0 = "''{5}''"] p
  have 1: "getHistory sample_parse sample_index five_lines ''agent:main:telegram:123'' 2
             = Inr [''{4}'', ''{5}'']"
    by (auto simp: five_lines_def)
  from i history_tail[where index = sample_index and sessionKey = "''agent:main:telegram:123''"
         and path = "''/s/abc.jsonl''" and parse = sample_parse and read_lines = damaged_lines
         and limit = 3] p
  have 2: "getHistory sample_parse sample_index damaged_lines ''agent:main:telegram:123'' 3
             = Inr [''{4}'']"
    by (auto simp: damaged_lines_def last_lines_def List.map_filter_def)
  from i 1 2 show ?thesis by simp
qed

text \<open>
  C7. For a session key absent from the session index, \<open>getHistory\<close> fails with
  \<open>SessionNotFound\<close>, which the response renders as status 404 with the error text
  \<open>Session not found\<close>; it does not return an empty message list.
\<close>

theorem history_not_found:
  assumes "index sessionKey = None"
  shows "getHistory parse index read_lines sessionKey limit = Inl SessionNotFound
         \<and> history_response (getHistory parse index read_lines sessionKey limit)
             = (404, HistoryError ''Session not found'')
         \<and> getHistory parse index read_lines sessionKey limit \<noteq> Inr []"
  using assms by (simp add: getHistory_def history_response_def)

theorem history_not_found_witness:
  "sample_index ''nonexistent'' = None
   \<and> getHistory sample_parse sample_index five_lines ''nonexistent'' 30 = Inl SessionNotFound
   \<and> history_response (getHistory sample_parse sample_index five_lines ''nonexistent'' 30)
       = (404, HistoryError ''Session not found'')"
proof -
  have e: "sample_index ''nonexistent'' = None" by (simp add: sample_index_def)
  from e history_not_found[where index = sample_index and sessionKey = "''nonexistent''"
         and parse = sample_parse and read_lines = five_lines and limit = 30]
  show ?thesis by blast
qed

text \<open>
  C8. When the output of the listing subprocess does not parse as JSON, \<open>listSessions\<close>
  answers with status 200, an empty session list, and a \<open>raw\<close> field that is the output
  text itself.
\<close>

theorem list_sessions_unparseable:
  assumes "parse stdout = None"
  shows "listSessions parse sessions_of stdout = (200, \<lparr>sessions = [], raw = Some stdout\<rparr>)"
  using assms by (simp add: listSessions_def)

theorem list_sessions_unparseable_witness:
  "sample_parse ''not valid json'' = None
   \<and> listSessions sample_parse (\<lambda>d. [d]) ''not valid json''
       = (200, \<lparr>sessions = [], raw = Some ''not valid json''\<rparr>)"
proof -
  have p: "sample_parse ''not valid json'' = None" by (simp add: sample_parse_def)
  from p list_sessions_unparseable[where parse = sample_parse and stdout = "''not valid json''"
         and sessions_of = "\<lambda>d. [d]"]
  show ?thesis by simp
qed

text \<open>
  C9 (as amended). Let the persisted document be an object whose \<open>gateway\<close>,
  \<open>gateway.http\<close> and \<open>gateway.http.endpoints\<close> are each absent, falsy or an object (an
  unreadable file counts as \<open>{}\<close>). Whenever the script completes, the document it
  writes back has the gateway port 18789, the mode \<open>local\<close>, the trusted-proxy list
  \<open>['10.1.0.0']\<close> and the chat-completions endpoint \<open>{enabled: true}\<close>, whatever the
  persisted document held at those places. The script does complete when the document
  has the expected shape.
\<close>

theorem gateway_fields_canonical:
  assumes "gateway_shape (initial_config persisted)"
  shows "(\<forall>c. hydrate e persisted = Inr c \<longrightarrow>
             peek [''gateway'', ''port''] c = JNum 18789
           \<and> peek [''gateway'', ''mode''] c = JStr ''local''
           \<and> peek [''gateway'', ''trustedProxies''] c = JArr [JStr ''10.1.0.0''] []
           \<and> peek [''gateway'', ''http'', ''endpoints'', ''chatCompletions''] c
               = JObj [(''enabled'', JBool True)])
       \<and> (well_shaped (initial_config persisted) \<longrightarrow> (\<exists>c. hydrate e persisted = Inr c))"
proof -
  have fields: "peek [''gateway'', ''port''] c = JNum 18789
           \<and> peek [''gateway'', ''mode''] c = JStr ''local''
           \<and> peek [''gateway'', ''trustedProxies''] c = JArr [JStr ''10.1.0.0''] []
           \<and> peek [''gateway'', ''http'', ''endpoints'', ''chatCompletions''] c
               = JObj [(''enabled'', JBool True)]"
    if "hydrate e persisted = Inr c" for c
  proof -
    from hydrate_written[OF that] obtain c' where
      r: "run (script e) (initial_config persisted) = Inr c'" and c: "c = written c'" by blast
    from assms have "shape [[]] gateway_chain [] (initial_config persisted)"
      by (simp add: gateway_shape_def shape_def objs_def vals_def)
    from gateway_when_completes[OF this, of e] r
    have "shape [[''gateway'', ''http'', ''endpoints''], [''gateway'', ''http''], [''gateway''], []]
            gateway_chain gw_vals c'"
      by (simp add: ends_in_def)
    then have "objs [[''gateway'', ''http'', ''endpoints''], [''gateway'', ''http''], [''gateway''], []] c'"
      and "vals gw_vals c'" by (simp_all add: shape_def)
    from written_gateway_fields[OF this] c show ?thesis by simp
  qed
  have completes: "\<exists>c. hydrate e persisted = Inr c" if "well_shaped (initial_config persisted)"
    using hydrate_shape[OF that, of e] by blast
  from fields completes show ?thesis by blast
qed

theorem gateway_fields_canonical_witness:
  "gateway_shape (initial_config (Some stale_gateway_config))
   \<and> well_shaped (initial_config (Some stale_gateway_config))
   \<and> (\<exists>c. hydrate no_env (Some stale_gateway_config) = Inr c
           \<and> peek [''gateway'', ''port''] c = JNum 18789
           \<and> peek [''gateway'', ''mode''] c = JStr ''local''
           \<and> peek [''gateway'', ''trustedProxies''] c = JArr [JStr ''10.1.0.0''] []
           \<and> peek [''gateway'', ''http'', ''endpoints'', ''chatCompletions''] c
               = JObj [(''enabled'', JBool True)])"
proof -
  have g: "gateway_shape (initial_config (Some stale_gateway_config))"
    by (simp add: stale_gateway_config_def initial_config_def gateway_shape_def gateway_chain_def
          lax_def obj_or_falsy_def)
  have w: "well_shaped (initial_config (Some stale_gateway_config))"
    by (simp add: stale_gateway_config_def initial_config_def well_shaped_def lax_def
          expected_objects_def obj_or_falsy_def anthropic_models_ok_def)
  from gateway_fields_canonical[OF g, of no_env] g w show ?thesis by blast
qed

text \<open>
  C9 as stated fails outside the expected shape. A persisted \<open>gateway\<close> that is an
  array receives the four fields as named properties, which \<open>JSON.stringify\<close> does not
  write: the document written back has \<open>"gateway": []\<close>. A persisted
  \<open>gateway.http\<close> that is \<open>true\<close> makes the script throw before it writes anything.
\<close>

theorem gateway_fields_counterexample:
  "hydrate no_env (Some (JObj [(''gateway'', JArr [] [])]))
     = Inr (JObj [(''gateway'', JArr [] []),
                  (''agents'', JObj [(''defaults'', JObj [(''model'',
                      JObj [(''primary'', JStr ''anthropic/claude-opus-4-5'')])])]),
                  (''channels'', JObj [])])
   \<and> hydrate no_env (Some (JObj [(''gateway'', JObj [(''http'', JBool True)])])) = Inl TypeError"
  by code_simp


text \<open>
  C10 (as amended). The provider configuration the script runs is one of its five
  branches. Let the persisted document be an object whose \<open>agents\<close>, \<open>agents.defaults\<close>
  and \<open>agents.defaults.model\<close> are each absent, falsy or an object (an unreadable file
  counts as \<open>{}\<close>). Whenever the script completes, the document it writes back has
  \<open>agents.defaults.model.primary\<close> set to the non-empty model name of that branch. The
  script does complete when the document has the expected shape.
\<close>

theorem primary_model_defined:
  assumes "model_shape (initial_config persisted)"
  shows "provider_configuration e \<in>
           {workers_ai_branch e, openai_branch e, anthropic_baseurl_branch e,
            anthropic_direct_branch e, default_branch}
       \<and> (\<forall>c. hydrate e persisted = Inr c \<longrightarrow>
              peek [''agents'', ''defaults'', ''model'', ''primary''] c = JStr (primary_model e)
            \<and> truthy (peek [''agents'', ''defaults'', ''model'', ''primary''] c))
       \<and> (well_shaped (initial_config persisted) \<longrightarrow> (\<exists>c. hydrate e persisted = Inr c))"
proof -
  have branch: "provider_configuration e \<in>
           {workers_ai_branch e, openai_branch e, anthropic_baseurl_branch e,
            anthropic_direct_branch e, default_branch}"
    by (simp add: provider_configuration_def)
  have primary: "peek [''agents'', ''defaults'', ''model'', ''primary''] c = JStr (primary_model e)
            \<and> truthy (peek [''agents'', ''defaults'', ''model'', ''primary''] c)"
    if "hydrate e persisted = Inr c" for c
  proof -
    from hydrate_written[OF that] obtain c' where
      r: "run (script e) (initial_config persisted) = Inr c'" and c: "c = written c'" by blast
    from assms have "shape [[]] model_chain [] (initial_config persisted)"
      by (simp add: model_shape_def shape_def objs_def vals_def)
    from primary_when_completes[OF this, of e] r
    have "shape model_objs model_chain
            [([''agents'', ''defaults'', ''model'', ''primary''], JStr (primary_model e))] c'"
      by (simp add: ends_in_def)
    then have "objs model_objs c'"
      and "peek [''agents'', ''defaults'', ''model'', ''primary''] c' = JStr (primary_model e)"
      by (simp_all add: shape_def vals_def del: peek.simps(2))
    from written_primary[OF this] c primary_model_nonempty[of e] show ?thesis by simp
  qed
  have completes: "\<exists>c. hydrate e persisted = Inr c" if "well_shaped (initial_config persisted)"
    using hydrate_shape[OF that, of e] by blast
  from branch primary completes show ?thesis by blast
qed

theorem primary_model_defined_witness:
  "model_shape (initial_config None)
   \<and> well_shaped (initial_config None)
   \<and> provider_configuration no_env \<in>
           {workers_ai_branch no_env, openai_branch no_env, anthropic_baseurl_branch no_env,
            anthropic_direct_branch no_env, default_branch}
   \<and> (\<exists>c. hydrate no_env None = Inr c
          \<and> peek [''agents'', ''defaults'', ''model'', ''primary''] c = JStr ''anthropic/claude-opus-4-5''
          \<and> truthy (peek [''agents'', ''defaults'', ''model'', ''primary''] c))"
proof -
  have m: "model_shape (initial_config None)"
    by (simp add: initial_config_def model_shape_def model_chain_def lax_def obj_or_falsy_def)
  have w: "well_shaped (initial_config None)"
    by (simp add: initial_config_def well_shaped_empty)
  have pm: "primary_model no_env = ''anthropic/claude-opus-4-5''" by code_simp
  from primary_model_defined[OF m, of no_env, unfolded pm] m w show ?thesis by blast
qed

text \<open>
  C10 as stated fails when the persisted \<open>agents.defaults.model\<close> is a string: the
  assignment to its \<open>primary\<close> property is dropped, and the document written back still
  has the string, with no \<open>primary\<close> field.
\<close>

theorem primary_model_counterexample:
  "hydrate no_env (Some string_model_config)
     = Inr (JObj [(''agents'', JObj [(''defaults'',
                     JObj [(''model'', JStr ''anthropic/claude-opus-4-5'')])]),
                  (''gateway'',
                   JObj [(''port'', JNum 18789), (''mode'', JStr ''local''),
                         (''trustedProxies'', JArr [JStr ''10.1.0.0''] []),
                         (''http'', JObj [(''endpoints'',
                            JObj [(''chatCompletions'', JObj [(''enabled'', JBool True)])])])]),
                  (''channels'', JObj [])])"
  by code_simp

end
